theory Spec2Isabelle
  imports Main "HOL-Library.Word" "HOL-Library.Sublist" "HOL-Library.AList"
    "HOL-Library.Char_ord" "HOL-Library.List_Lexorder"
begin

unbundle bit_operations_syntax

section \<open>DeltaConfig: the bit-flag configuration (delta\_config.py)\<close>

text \<open>
  \<open>DeltaConfig\<close> is a Python \<open>enum.Flag\<close> whose members occupy bits 0 to 11. A
  member is determined by its value, and \<open>&\<close>, \<open>|\<close> act on the values, so a
  configuration is a 12-bit word. The constants are written as the source writes them
  (\<open>0b11 << 2\<close> is \<open>push_bit 2 3\<close>).
\<close>

type_synonym DeltaConfig = "12 word"

definition KeyCaseIgnored :: DeltaConfig where "KeyCaseIgnored = push_bit 0 1"
definition ValueCaseIgnored :: DeltaConfig where "ValueCaseIgnored = push_bit 1 1"
definition CaseIgnored :: DeltaConfig where "CaseIgnored = push_bit 0 3"
definition SpaceTrimmed :: DeltaConfig where "SpaceTrimmed = push_bit 2 3"
definition KeySpaceTrimmed :: DeltaConfig where "KeySpaceTrimmed = push_bit 2 1"
definition ValueSpaceTrimmed :: DeltaConfig where "ValueSpaceTrimmed = push_bit 3 1"
definition IdAsKey :: DeltaConfig where "IdAsKey = push_bit 4 1"
definition NoneUnequalDefault :: DeltaConfig where "NoneUnequalDefault = push_bit 5 1"
definition MissingAsNone :: DeltaConfig where "MissingAsNone = push_bit 6 1"
definition OutputKeepAllDetails :: DeltaConfig where "OutputKeepAllDetails = push_bit 7 1"
definition OutputWithDeltaIndicator :: DeltaConfig where "OutputWithDeltaIndicator = push_bit 8 1"
definition OutputIncludeValueTypes :: DeltaConfig where "OutputIncludeValueTypes = push_bit 9 1"
definition OutputDeltaFormatMask :: DeltaConfig where "OutputDeltaFormatMask = push_bit 10 3"
definition OutputDeltaAsTuple :: DeltaConfig where "OutputDeltaAsTuple = push_bit 10 0"
definition OutputDeltaAsDict :: DeltaConfig where "OutputDeltaAsDict = push_bit 10 1"
definition OutputDeltaAsStr :: DeltaConfig where "OutputDeltaAsStr = push_bit 10 2"
definition OutputDeltaAsCustom :: DeltaConfig where "OutputDeltaAsCustom = push_bit 10 3"
definition OutputFormatMask :: DeltaConfig where "OutputFormatMask = push_bit 7 31"
definition OutputDefault :: DeltaConfig where "OutputDefault = push_bit 7 0"
definition OutputWithFlag :: DeltaConfig where
  "OutputWithFlag = OutputDefault OR OutputWithDeltaIndicator"
definition OutputAllDetails :: DeltaConfig where
  "OutputAllDetails = OutputKeepAllDetails OR OutputWithFlag OR OutputIncludeValueTypes"
definition OutputNoneOrDict :: DeltaConfig where
  "OutputNoneOrDict = OutputDefault OR OutputDeltaAsDict"
definition OutputNoneOrDictRaw :: DeltaConfig where
  "OutputNoneOrDictRaw = OutputNoneOrDict OR OutputKeepAllDetails"
definition OutputNoneOrStr :: DeltaConfig where
  "OutputNoneOrStr = OutputDefault OR OutputDeltaAsStr"
definition OutputNoneOrStrRaw :: DeltaConfig where
  "OutputNoneOrStrRaw = OutputNoneOrStr OR OutputKeepAllDetails"

text \<open>
  \<open>mask or flags\<close> is Python's short-circuit \<open>or\<close>: it is \<open>mask\<close> when \<open>mask\<close> is
  truthy, and \<open>flags\<close> when \<open>mask\<close> is \<open>None\<close> or the empty flag (a \<open>Flag\<close> of value
  0 is falsy).
\<close>

definition mask_or_flags :: "DeltaConfig option \<Rightarrow> DeltaConfig \<Rightarrow> DeltaConfig" where
  "mask_or_flags msk flags =
     (case msk of None \<Rightarrow> flags | Some m \<Rightarrow> (if m = 0 then flags else m))"

definition matches :: "DeltaConfig \<Rightarrow> DeltaConfig \<Rightarrow> DeltaConfig option \<Rightarrow> bool" where
  "matches self flags msk = (self AND mask_or_flags msk flags = flags)"


section \<open>Python values\<close>

text \<open>
  The values the engine is run on here: \<open>None\<close>, booleans, integers, the float
  \<open>nan\<close>, strings, lists, tuples, dicts, type objects, the \<open>NotImplemented\<close>
  singleton and instances of plain classes (an identity, the qualified class name and
  the instance \<open>__dict__\<close>). \<open>VNaN i\<close> is a float object \<open>float('nan')\<close> with the
  identity \<open>i\<close>: it is the one value here that is not equal to itself. A dict is an
  association list in insertion order; it stands for a Python dict when its keys are
  hashable and pairwise unequal. The other floats, decimals, dates, sets and compiled
  patterns are not part of this value universe; strings are sequences of ASCII
  characters.
\<close>

datatype error = TypeError | ValueError | IndexError | KeyError | AttributeError
  | RecursionError

datatype pytype = NoneType | T_bool | T_int | T_float | T_Decimal | T_str | T_list
  | T_tuple | T_dict | T_set | T_type | T_NotImplementedType | T_class string

datatype pyval = VNone | VBool bool | VInt int | VNaN nat | VStr string
  | VList "pyval list"
  | VTuple "pyval list" | VDict "(pyval \<times> pyval) list" | VType pytype | VNotImplemented
  | VObj nat string "(string \<times> pyval) list"

fun type_of :: "pyval \<Rightarrow> pytype" where
  "type_of VNone = NoneType"
| "type_of (VBool b) = T_bool"
| "type_of (VInt i) = T_int"
| "type_of (VNaN i) = T_float"
| "type_of (VStr s) = T_str"
| "type_of (VList xs) = T_list"
| "type_of (VTuple xs) = T_tuple"
| "type_of (VDict d) = T_dict"
| "type_of (VType t) = T_type"
| "type_of VNotImplemented = T_NotImplementedType"
| "type_of (VObj a c f) = T_class c"

text \<open>\<open>isinstance(v, Mapping)\<close>, \<open>isinstance(v, Sequence)\<close> (a \<open>str\<close> is a
  sequence), \<open>isinstance(v, str)\<close> and \<open>issubclass(t, Collection)\<close>.\<close>

fun is_Mapping :: "pyval \<Rightarrow> bool" where
  "is_Mapping (VDict d) = True"
| "is_Mapping v = False"

fun is_Sequence :: "pyval \<Rightarrow> bool" where
  "is_Sequence (VList xs) = True"
| "is_Sequence (VTuple xs) = True"
| "is_Sequence (VStr s) = True"
| "is_Sequence v = False"

fun is_str :: "pyval \<Rightarrow> bool" where
  "is_str (VStr s) = True"
| "is_str v = False"

definition is_Collection_type :: "pytype \<Rightarrow> bool" where
  "is_Collection_type t = (t \<in> {T_str, T_list, T_tuple, T_dict, T_set})"

text \<open>
  \<open>x is y\<close> for the \<open>nan\<close> objects. Every other value of this universe is equal to
  itself, so that for it the identity test adds nothing to \<open>==\<close>.
\<close>

fun same_nan :: "pyval \<Rightarrow> pyval \<Rightarrow> bool" where
  "same_nan (VNaN i) y = (case y of VNaN j \<Rightarrow> i = j | _ \<Rightarrow> False)"
| "same_nan x y = False"

text \<open>
  Python's \<open>==\<close>. \<open>bool\<close> is a subclass of \<open>int\<close> (\<open>True == 1\<close>); \<open>nan\<close> is equal
  to nothing, itself included; a list never equals a tuple; two dicts are equal when
  they have the same number of items and every item of the left one has an equal key
  with an equal value on the right; instances of plain classes are compared by identity.
  The items of lists and tuples and the keys and values of dicts are compared as the
  interpreter compares them inside containers: identity first, then \<open>==\<close>.
\<close>

fun py_eq :: "pyval \<Rightarrow> pyval \<Rightarrow> bool" where
  "py_eq VNone y = (case y of VNone \<Rightarrow> True | _ \<Rightarrow> False)"
| "py_eq (VBool a) y = (case y of VBool b \<Rightarrow> a = b | VInt b \<Rightarrow> (if a then 1 else 0) = b
     | _ \<Rightarrow> False)"
| "py_eq (VInt a) y = (case y of VBool b \<Rightarrow> a = (if b then 1 else 0) | VInt b \<Rightarrow> a = b
     | _ \<Rightarrow> False)"
| "py_eq (VNaN i) y = False"
| "py_eq (VStr a) y = (case y of VStr b \<Rightarrow> a = b | _ \<Rightarrow> False)"
| "py_eq (VList xs) y = (case y of
       VList ys \<Rightarrow> list_all2 (\<lambda>a b. same_nan a b \<or> py_eq a b) xs ys
     | _ \<Rightarrow> False)"
| "py_eq (VTuple xs) y = (case y of
       VTuple ys \<Rightarrow> list_all2 (\<lambda>a b. same_nan a b \<or> py_eq a b) xs ys
     | _ \<Rightarrow> False)"
| "py_eq (VDict a) y = (case y of
       VDict b \<Rightarrow> length a = length b \<and>
         list_all (\<lambda>(k, v). list_ex (\<lambda>(k', v'). (same_nan k k' \<or> py_eq k k')
                                             \<and> (same_nan v v' \<or> py_eq v v')) b) a
     | _ \<Rightarrow> False)"
| "py_eq (VType s) y = (case y of VType t \<Rightarrow> s = t | _ \<Rightarrow> False)"
| "py_eq VNotImplemented y = (case y of VNotImplemented \<Rightarrow> True | _ \<Rightarrow> False)"
| "py_eq (VObj i c f) y = (case y of VObj j d g \<Rightarrow> i = j | _ \<Rightarrow> False)"

text \<open>
  \<open>x is y or x == y\<close>: the comparison the interpreter uses for the items of containers,
  for \<open>in\<close> and for the keys of dicts and sets.
\<close>

definition same_or_eq :: "pyval \<Rightarrow> pyval \<Rightarrow> bool" where
  "same_or_eq x y = (same_nan x y \<or> py_eq x y)"

text \<open>
  For values that are not containers, that comparison is equality of canonical forms: a
  boolean counts as its integer, an instance as its identity.
\<close>

fun canon :: "pyval \<Rightarrow> pyval" where
  "canon (VBool b) = VInt (if b then 1 else 0)"
| "canon (VObj a c f) = VObj a [] []"
| "canon v = v"

fun flat :: "pyval \<Rightarrow> bool" where
  "flat (VList xs) = False"
| "flat (VTuple xs) = False"
| "flat (VDict d) = False"
| "flat v = True"

text \<open>Truth value of a value (\<open>bool(v)\<close>, \<open>not v\<close>, \<open>if v\<close>).\<close>

fun py_truthy :: "pyval \<Rightarrow> bool" where
  "py_truthy VNone = False"
| "py_truthy (VBool b) = b"
| "py_truthy (VInt i) = (i \<noteq> 0)"
| "py_truthy (VNaN i) = True"
| "py_truthy (VStr s) = (s \<noteq> [])"
| "py_truthy (VList xs) = (xs \<noteq> [])"
| "py_truthy (VTuple xs) = (xs \<noteq> [])"
| "py_truthy (VDict d) = (d \<noteq> [])"
| "py_truthy (VType t) = True"
| "py_truthy VNotImplemented = True"
| "py_truthy (VObj a c f) = True"

fun hashable :: "pyval \<Rightarrow> bool" where
  "hashable (VList xs) = False"
| "hashable (VDict d) = False"
| "hashable (VTuple xs) = list_all hashable xs"
| "hashable v = True"

subsection \<open>Dicts and sets\<close>

text \<open>\<open>d[k]\<close>: \<open>TypeError\<close> for an unhashable key, \<open>KeyError\<close> for a missing one. A
  key is found by identity or equality.\<close>

definition dict_get :: "(pyval \<times> pyval) list \<Rightarrow> pyval \<Rightarrow> error + pyval" where
  "dict_get d k =
     (if \<not> hashable k then Inl TypeError
      else case find (\<lambda>(k', v). same_or_eq k' k) d of
             None \<Rightarrow> Inl KeyError
           | Some (k', v) \<Rightarrow> Inr v)"

text \<open>
  \<open>d[k] = v\<close>: an existing equal key keeps its place (and the key object first
  inserted) and takes the new value; a new key is appended.
\<close>

fun dict_store :: "(pyval \<times> pyval) list \<Rightarrow> pyval \<Rightarrow> pyval \<Rightarrow> (pyval \<times> pyval) list" where
  "dict_store [] k v = [(k, v)]"
| "dict_store ((k', v') # d) k v =
     (if same_or_eq k' k then (k', v) # d else (k', v') # dict_store d k v)"

definition dict_set ::
  "(pyval \<times> pyval) list \<Rightarrow> pyval \<Rightarrow> pyval \<Rightarrow> error + (pyval \<times> pyval) list" where
  "dict_set d k v = (if \<not> hashable k then Inl TypeError else Inr (dict_store d k v))"

text \<open>A dict comprehension \<open>{key(x): value(x) for x in xs}\<close>: each item is computed and
  stored in turn, and the first error ends it.\<close>

fun dict_comp ::
  "('a \<Rightarrow> error + pyval \<times> pyval) \<Rightarrow> 'a list \<Rightarrow> (pyval \<times> pyval) list
     \<Rightarrow> error + (pyval \<times> pyval) list" where
  "dict_comp f [] d = Inr d"
| "dict_comp f (x # xs) d =
     (case f x of
        Inl e \<Rightarrow> Inl e
      | Inr (k, v) \<Rightarrow> (case dict_set d k v of Inl e \<Rightarrow> Inl e | Inr d' \<Rightarrow> dict_comp f xs d'))"

text \<open>
  A Python set is a list without equal elements. The order in which Python iterates over
  a set depends on the hashes; here it is the order of first insertion.
\<close>

definition py_in :: "pyval \<Rightarrow> pyval list \<Rightarrow> bool" where
  "py_in x xs = list_ex (\<lambda>y. same_or_eq y x) xs"

fun set_of_list :: "pyval list \<Rightarrow> pyval list \<Rightarrow> error + pyval list" where
  "set_of_list acc [] = Inr acc"
| "set_of_list acc (x # xs) =
     (if \<not> hashable x then Inl TypeError
      else set_of_list (if py_in x acc then acc else acc @ [x]) xs)"

text \<open>A list of keys stands for a set, or for the keys of a dict, when no key is equal to
  an earlier one.\<close>

fun distinct_keys :: "pyval list \<Rightarrow> bool" where
  "distinct_keys [] = True"
| "distinct_keys (k # ks) = (\<not> list_ex (same_or_eq k) ks \<and> distinct_keys ks)"


subsection \<open>Strings\<close>

text \<open>\<open>str.casefold()\<close> and \<open>str.strip()\<close> on ASCII text, \<open>str.split(sep)\<close>,
  \<open>str.endswith\<close> and \<open>xs[-1]\<close>.\<close>

definition casefold_char :: "char \<Rightarrow> char" where
  "casefold_char c =
     (if 65 \<le> (of_char c :: nat) \<and> (of_char c :: nat) \<le> 90
      then char_of ((of_char c :: nat) + 32) else c)"

definition casefold :: "string \<Rightarrow> string" where
  "casefold s = map casefold_char s"

definition is_space :: "char \<Rightarrow> bool" where
  "is_space c = (let n = (of_char c :: nat) in (9 \<le> n \<and> n \<le> 13) \<or> (28 \<le> n \<and> n \<le> 32))"

definition strip :: "string \<Rightarrow> string" where
  "strip s = rev (dropWhile is_space (rev (dropWhile is_space s)))"

fun py_split :: "char \<Rightarrow> string \<Rightarrow> string list" where
  "py_split sep [] = [[]]"
| "py_split sep (c # cs) =
     (if c = sep then [] # py_split sep cs
      else (case py_split sep cs of [] \<Rightarrow> [[c]] | w # ws \<Rightarrow> (c # w) # ws))"

definition endswith :: "string \<Rightarrow> string \<Rightarrow> bool" where
  "endswith s k = (length k \<le> length s \<and> drop (length s - length k) s = k)"

definition startswith :: "string \<Rightarrow> string \<Rightarrow> bool" where
  "startswith s k = (take (length k) s = k)"

definition neg1 :: "'a list \<Rightarrow> error + 'a" where
  "neg1 xs = (if xs = [] then Inl IndexError else Inr (last xs))"

text \<open>\<open>str(i)\<close> of an integer, and the hexadecimal digits of an address.\<close>

fun digits :: "nat \<Rightarrow> nat \<Rightarrow> string" where
  "digits b n =
     (if b < 2 \<or> n < b then [char_of (if n < 10 then 48 + n else 87 + n)]
      else digits b (n div b) @ [char_of (if n mod b < 10 then 48 + n mod b else 87 + n mod b)])"

declare digits.simps [simp del]

definition str_int :: "int \<Rightarrow> string" where
  "str_int i = (if i < 0 then CHR ''-'' # digits 10 (nat (- i)) else digits 10 (nat i))"

text \<open>
  \<open>repr\<close> of a string: single quotes, unless the text has a single quote and no double
  quote; the backslash, the chosen quote and the control characters are escaped.
\<close>

definition repr_char :: "char \<Rightarrow> char \<Rightarrow> string" where
  "repr_char q c =
     (let n = (of_char c :: nat) in
      if c = CHR 0x5C \<or> c = q then [CHR 0x5C, c]
      else if n = 9 then [CHR 0x5C, CHR ''t'']
      else if n = 10 then [CHR 0x5C, CHR ''n'']
      else if n = 13 then [CHR 0x5C, CHR ''r'']
      else if n < 32 \<or> n = 127
        then [CHR 0x5C, CHR ''x''] @ (if n < 16 then ''0'' else []) @ digits 16 n
      else [c])"

definition repr_str :: "string \<Rightarrow> string" where
  "repr_str s =
     (let q = (if CHR 0x27 \<in> set s \<and> CHR 0x22 \<notin> set s then CHR 0x22 else CHR 0x27)
      in [q] @ concat (map (repr_char q) s) @ [q])"

fun join :: "string \<Rightarrow> string list \<Rightarrow> string" where
  "join sep [] = []"
| "join sep [x] = x"
| "join sep (x # y # ys) = x @ sep @ join sep (y # ys)"

fun type_name :: "pytype \<Rightarrow> string" where
  "type_name NoneType = ''NoneType''"
| "type_name T_bool = ''bool''"
| "type_name T_int = ''int''"
| "type_name T_float = ''float''"
| "type_name T_Decimal = ''decimal.Decimal''"
| "type_name T_str = ''str''"
| "type_name T_list = ''list''"
| "type_name T_tuple = ''tuple''"
| "type_name T_dict = ''dict''"
| "type_name T_set = ''set''"
| "type_name T_type = ''type''"
| "type_name T_NotImplementedType = ''NotImplementedType''"
| "type_name (T_class c) = c"

fun py_repr :: "pyval \<Rightarrow> string" where
  "py_repr VNone = ''None''"
| "py_repr (VBool b) = (if b then ''True'' else ''False'')"
| "py_repr (VInt i) = str_int i"
| "py_repr (VNaN i) = ''nan''"
| "py_repr (VStr s) = repr_str s"
| "py_repr (VList xs) = ''['' @ join '', '' (map py_repr xs) @ '']''"
| "py_repr (VTuple xs) =
     (case xs of [x] \<Rightarrow> ''('' @ py_repr x @ '',)''
      | _ \<Rightarrow> ''('' @ join '', '' (map py_repr xs) @ '')'')"
| "py_repr (VDict d) =
     ''{'' @ join '', '' (map (\<lambda>(k, v). py_repr k @ '': '' @ py_repr v) d) @ ''}''"
| "py_repr (VType t) = ''<class '' @ [CHR 0x27] @ type_name t @ [CHR 0x27] @ ''>''"
| "py_repr VNotImplemented = ''NotImplemented''"
| "py_repr (VObj a c f) = ''<'' @ c @ '' object at 0x'' @ digits 16 a @ ''>''"

text \<open>\<open>str(v)\<close>, which is also what an f-string field \<open>{v}\<close> and \<open>'{0}'.format(v)\<close>
  produce for these values.\<close>

fun py_str :: "pyval \<Rightarrow> string" where
  "py_str (VStr s) = s"
| "py_str v = py_repr v"

section \<open>Key normalisation and key matching (core.py)\<close>

definition PATH_SEPARATOR :: char where
  "PATH_SEPARATOR = CHR ''>''"

definition MISSING :: pyval where
  "MISSING = VStr ''MISSING''"

text \<open>
  \<open>normalize\<close> is a \<open>singledispatch\<close> function: tuples are normalised element by
  element (and stay tuples), strings are case-folded and stripped as asked, a float is
  formatted with two digits (\<open>'{:.2f}'.format(nan)\<close> is \<open>'nan'\<close>), every other value
  goes through \<open>str\<close>.
\<close>

definition normalize_str :: "string \<Rightarrow> bool \<Rightarrow> bool \<Rightarrow> string" where
  "normalize_str str_key case_ignored space_trimmed =
     (let cased_key = (if case_ignored then casefold str_key else str_key)
      in if space_trimmed then strip cased_key else cased_key)"

fun normalize :: "pyval \<Rightarrow> bool \<Rightarrow> bool \<Rightarrow> pyval" where
  "normalize (VTuple tpl) case_ignored space_trimmed =
     VTuple (map (\<lambda>item. normalize item case_ignored space_trimmed) tpl)"
| "normalize (VStr s) case_ignored space_trimmed =
     VStr (normalize_str s case_ignored space_trimmed)"
| "normalize (VNaN i) case_ignored space_trimmed = VStr ''nan''"
| "normalize v case_ignored space_trimmed =
     VStr (normalize_str (py_str v) case_ignored space_trimmed)"

text \<open>
  \<open>key_matches\<close> for a \<open>str\<close> specifier. The key path is a string everywhere in the
  engine except in \<open>matched_keys\<close>, where it is a normalised key and can be a tuple:
  \<open>split\<close>, \<open>casefold\<close> and \<open>endswith\<close> then raise \<open>AttributeError\<close>.
\<close>

definition key_matches_str :: "string \<Rightarrow> pyval \<Rightarrow> bool \<Rightarrow> error + bool" where
  "key_matches_str key key_path case_ignored =
     (if PATH_SEPARATOR \<notin> set key then
        (case key_path of
           VStr p \<Rightarrow>
             (case neg1 (py_split PATH_SEPARATOR p) of
                Inl e \<Rightarrow> Inl e
              | Inr last_key \<Rightarrow>
                  Inr (if case_ignored then casefold key = casefold last_key
                       else key = last_key))
         | _ \<Rightarrow> Inl AttributeError)
      else if hd key = PATH_SEPARATOR then
        (if case_ignored then
           (case key_path of VStr p \<Rightarrow> Inr (casefold key = casefold p)
            | _ \<Rightarrow> Inl AttributeError)
         else Inr (py_eq (VStr key) key_path))
      else
        (case key_path of
           VStr p \<Rightarrow>
             Inr (if case_ignored then endswith (casefold p) (casefold key)
                  else endswith p key)
         | _ \<Rightarrow> Inl AttributeError))"

text \<open>The dispatch of \<open>key_matches\<close> on the type of the specifier.\<close>

definition key_matches :: "pyval \<Rightarrow> pyval \<Rightarrow> bool \<Rightarrow> error + bool" where
  "key_matches kp key_path case_ignored =
     (case kp of
        VTuple tpl \<Rightarrow> Inr (py_eq (normalize kp case_ignored False) key_path)
      | VStr key \<Rightarrow> key_matches_str key key_path case_ignored
      | _ \<Rightarrow> key_matches_str (py_str kp) key_path case_ignored)"

text \<open>The last segment of a path: the text after its last separator.\<close>

definition last_segment :: "string \<Rightarrow> string" where
  "last_segment p = rev (takeWhile (\<lambda>c. c \<noteq> PATH_SEPARATOR) (rev p))"


subsection \<open>Sequencing of calls that can raise, and logged warnings\<close>

definition and_then :: "error + 'a \<Rightarrow> ('a \<Rightarrow> error + 'b) \<Rightarrow> error + 'b" where
  "and_then m f = (case m of Inl e \<Rightarrow> Inl e | Inr x \<Rightarrow> f x)"

text \<open>A list comprehension \<open>[x for x in xs if p(x)]\<close> whose condition can raise.\<close>

fun filter_err :: "('a \<Rightarrow> error + bool) \<Rightarrow> 'a list \<Rightarrow> error + 'a list" where
  "filter_err p [] = Inr []"
| "filter_err p (x # xs) =
     (case p x of
        Inl e \<Rightarrow> Inl e
      | Inr b \<Rightarrow> (case filter_err p xs of
                   Inl e \<Rightarrow> Inl e
                 | Inr ys \<Rightarrow> Inr (if b then x # ys else ys)))"

fun map_err :: "('a \<Rightarrow> error + 'b) \<Rightarrow> 'a list \<Rightarrow> error + 'b list" where
  "map_err f [] = Inr []"
| "map_err f (x # xs) =
     (case f x of
        Inl e \<Rightarrow> Inl e
      | Inr y \<Rightarrow> (case map_err f xs of Inl e \<Rightarrow> Inl e | Inr ys \<Rightarrow> Inr (y # ys)))"

text \<open>
  The warnings the code sends to its logger. A function that logs returns the warnings
  it has emitted together with its result (or the error it raised).
\<close>

datatype log_msg =
    MultipleMatching pyval "pyval list"
  | PairComparatorsDiffer pytype pytype
  | SingleComparatorsDiffer pytype pytype

type_synonym 'a logged = "log_msg list \<times> (error + 'a)"

fun filter_log :: "('a \<Rightarrow> bool logged) \<Rightarrow> 'a list \<Rightarrow> ('a list) logged" where
  "filter_log p [] = ([], Inr [])"
| "filter_log p (x # xs) =
     (case p x of
        (w, Inl e) \<Rightarrow> (w, Inl e)
      | (w, Inr b) \<Rightarrow>
          (case filter_log p xs of
             (w', Inl e) \<Rightarrow> (w @ w', Inl e)
           | (w', Inr ys) \<Rightarrow> (w @ w', Inr (if b then x # ys else ys))))"

subsection \<open>matched\_keys, key\_denoted\_by\_id, get\_matched\_keys, guess\_keys\<close>

definition matched_keys :: "pyval \<Rightarrow> pyval list \<Rightarrow> bool \<Rightarrow> bool \<Rightarrow> (pyval list) logged" where
  "matched_keys key_path all_keys case_ignored space_trimmed =
     (let normalized = normalize key_path case_ignored space_trimmed in
      case filter_err (\<lambda>k. key_matches k normalized case_ignored) all_keys of
        Inl e \<Rightarrow> ([], Inl e)
      | Inr keys \<Rightarrow>
          (if length keys > 1 then [MultipleMatching key_path keys] else [], Inr keys))"

definition key_denoted_by_id :: "pyval \<Rightarrow> bool \<Rightarrow> error + bool" where
  "key_denoted_by_id name case_ignored =
     (case normalize name case_ignored True of
        VStr name_str \<Rightarrow> Inr (endswith name_str ''id'' \<or> startswith name_str ''id'')
      | _ \<Rightarrow> Inl AttributeError)"

text \<open>
  The predicate \<open>is_key\<close> is an optional callable \<open>(name, case_ignored)\<close>; its result
  is used as a condition, so it is taken as a truth value here.
\<close>

type_synonym key_pred = "pyval \<Rightarrow> bool \<Rightarrow> error + bool"

definition get_matched_keys ::
  "pyval list \<Rightarrow> key_pred option \<Rightarrow> bool \<Rightarrow> pyval list \<Rightarrow> (pyval list) logged" where
  "get_matched_keys candidates is_key case_ignored keys =
     (if keys \<noteq> [] then
        (case filter_log
                (\<lambda>k. case matched_keys k keys case_ignored True of
                        (w, Inl e) \<Rightarrow> (w, Inl e)
                      | (w, Inr ks) \<Rightarrow> (w, Inr (ks \<noteq> [])))
                candidates of
           (w, Inl e) \<Rightarrow> (w, Inl e)
         | (w, Inr ks) \<Rightarrow> (w, set_of_list [] ks))
      else (case is_key of
              Some p \<Rightarrow> ([], and_then (filter_err (\<lambda>k. p k case_ignored) candidates)
                                       (set_of_list []))
            | None \<Rightarrow> ([], Inr [])))"

text \<open>\<open>list(seq)\<close>: the items of an iterable; a string yields its characters, a dict
  its keys.\<close>

fun items_of :: "pyval \<Rightarrow> error + pyval list" where
  "items_of (VList xs) = Inr xs"
| "items_of (VTuple xs) = Inr xs"
| "items_of (VStr s) = Inr (map (\<lambda>c. VStr [c]) s)"
| "items_of (VDict d) = Inr (map fst d)"
| "items_of v = Inl TypeError"

text \<open>
  \<open>item.keys()\<close> of a dict, and the \<open>__dict__\<close> of an instance as a dict. A class
  object has a \<open>__dict__\<close> too, its namespace, which the type objects of this value
  universe do not carry: \<open>attr_dict\<close> is what the code does for instances and for the
  values without a \<open>__dict__\<close>, and sequences of class objects are not covered.
\<close>

fun dict_keys :: "pyval \<Rightarrow> pyval list" where
  "dict_keys (VDict d) = map fst d"
| "dict_keys v = []"

definition obj_dict :: "(string \<times> pyval) list \<Rightarrow> (pyval \<times> pyval) list" where
  "obj_dict f = map (\<lambda>(n, v). (VStr n, v)) f"

fun attr_dict :: "pyval \<Rightarrow> error + (pyval \<times> pyval) list" where
  "attr_dict (VObj a c f) = Inr (obj_dict f)"
| "attr_dict v = Inl AttributeError"

text \<open>\<open>set.intersection(*key_sets)\<close>: the elements of the first set that are in all
  the others.\<close>

fun intersection :: "pyval list list \<Rightarrow> pyval list" where
  "intersection [] = []"
| "intersection (ks # kss) = filter (\<lambda>k. list_all (py_in k) kss) ks"

text \<open>
  \<open>guess_keys\<close> returns a set, except for a sequence of items of several types, where
  it returns the empty dict \<open>{}\<close>.
\<close>

datatype keyset = KeySet "pyval list" | EmptyDict

fun keyset_list :: "keyset \<Rightarrow> pyval list" where
  "keyset_list (KeySet ks) = ks"
| "keyset_list EmptyDict = []"

definition guess_keys ::
  "pyval \<Rightarrow> key_pred option \<Rightarrow> bool \<Rightarrow> pyval list \<Rightarrow> keyset logged" where
  "guess_keys seq is_key case_ignored keys =
     (if \<not> py_truthy seq then
        ([], and_then (set_of_list [] keys) (\<lambda>ks. Inr (KeySet ks)))
      else
        (case items_of seq of
           Inl e \<Rightarrow> ([], Inl e)
         | Inr items \<Rightarrow>
             (if length (remdups (map type_of items)) \<noteq> 1 then ([], Inr EmptyDict)
              else
                (let shared_keys =
                   (if type_of (hd items) = T_dict
                    then intersection (map dict_keys items)
                    else (case attr_dict (hd items) of
                            Inr d \<Rightarrow>
                              intersection
                                (map (\<lambda>item. case attr_dict item of
                                                Inr d' \<Rightarrow> map fst d' | Inl e \<Rightarrow> [])
                                     items)
                          | Inl e \<Rightarrow> []))
                 in case get_matched_keys shared_keys is_key case_ignored keys of
                      (w, Inl e) \<Rightarrow> (w, Inl e)
                    | (w, Inr ks) \<Rightarrow> (w, Inr (KeySet ks))))))"


subsection \<open>sequence\_to\_dict\<close>

text \<open>
  \<open>keys.sort()\<close> orders the keys with \<open><\<close>: numbers by value (\<open>nan\<close> is less than
  no number, and no number is less than it), strings lexicographically by character
  code, tuples by their first unequal elements; any other pair is unorderable and the
  sort raises \<open>TypeError\<close>. Where \<open><\<close> is a total order on the keys, every sorting
  algorithm returns the same list, and \<open>py_sort\<close> is that list; the order in which
  \<open>list.sort\<close> leaves keys that include \<open>nan\<close> depends on its algorithm and is not what
  \<open>py_sort\<close> computes.
\<close>

fun str_lt :: "string \<Rightarrow> string \<Rightarrow> bool" where
  "str_lt [] [] = False"
| "str_lt [] (b # bs) = True"
| "str_lt (a # as) [] = False"
| "str_lt (a # as) (b # bs) =
     (if a = b then str_lt as bs else (of_char a :: nat) < of_char b)"

fun as_number :: "pyval \<Rightarrow> int option" where
  "as_number (VBool b) = Some (if b then 1 else 0)"
| "as_number (VInt i) = Some i"
| "as_number v = None"

fun is_number :: "pyval \<Rightarrow> bool" where
  "is_number (VBool b) = True"
| "is_number (VInt i) = True"
| "is_number (VNaN i) = True"
| "is_number v = False"

function py_lt :: "pyval \<Rightarrow> pyval \<Rightarrow> error + bool" where
  "py_lt x y =
     (case (x, y) of
        (VStr a, VStr b) \<Rightarrow> Inr (str_lt a b)
      | (VTuple xs, VTuple ys) \<Rightarrow>
          (case dropWhile (\<lambda>(a, b). same_or_eq a b) (zip xs ys) of
             [] \<Rightarrow> Inr (length xs < length ys)
           | (a, b) # rest \<Rightarrow> py_lt a b)
      | _ \<Rightarrow> (if is_number x \<and> is_number y then
                Inr (case (as_number x, as_number y) of
                       (Some a, Some b) \<Rightarrow> a < b
                     | _ \<Rightarrow> False)
              else Inl TypeError))"
  by pat_completeness auto
termination
proof -
  have aux: "size a < Suc (size_list size xs)"
    if "dropWhile P (zip xs ys) = (a, b) # rest"
    for P and xs ys :: "pyval list" and a b rest
  proof -
    from that have "(a, b) \<in> set (dropWhile P (zip xs ys))" by simp
    then have "(a, b) \<in> set (zip xs ys)" by (rule set_dropWhileD)
    then have "a \<in> set xs" by (rule set_zip_leftD)
    then show ?thesis by (simp add: less_Suc_eq_le size_list_estimation')
  qed
  show ?thesis
    by (relation "measure (\<lambda>(x, y). size x)") (auto dest: aux)
qed

declare py_lt.simps [simp del]

fun insort_lt :: "pyval \<Rightarrow> pyval list \<Rightarrow> error + pyval list" where
  "insort_lt x [] = Inr [x]"
| "insort_lt x (y # ys) =
     (case py_lt x y of
        Inl e \<Rightarrow> Inl e
      | Inr True \<Rightarrow> Inr (x # y # ys)
      | Inr False \<Rightarrow> (case insort_lt x ys of Inl e \<Rightarrow> Inl e | Inr zs \<Rightarrow> Inr (y # zs)))"

fun py_sort :: "pyval list \<Rightarrow> error + pyval list" where
  "py_sort [] = Inr []"
| "py_sort (x # xs) = (case py_sort xs of Inl e \<Rightarrow> Inl e | Inr ys \<Rightarrow> insort_lt x ys)"

text \<open>\<open>item[k]\<close> for an item of a sequence of dicts, and \<open>item.__dict__[k]\<close>.\<close>

definition item_get :: "pyval \<Rightarrow> pyval \<Rightarrow> error + pyval" where
  "item_get item k = (case item of VDict d \<Rightarrow> dict_get d k | _ \<Rightarrow> Inl TypeError)"

definition attr_get :: "pyval \<Rightarrow> pyval \<Rightarrow> error + pyval" where
  "attr_get item k = and_then (attr_dict item) (\<lambda>d. dict_get d k)"

definition range_strs :: "nat \<Rightarrow> pyval list" where
  "range_strs n = map (\<lambda>i. VStr (str_int (int i))) [0..<n]"

definition sequence_to_dict ::
  "pyval \<Rightarrow> key_pred option \<Rightarrow> bool \<Rightarrow> pyval list \<Rightarrow> ((pyval \<times> pyval) list) logged" where
  "sequence_to_dict seq is_key case_ignored keys =
     (case guess_keys seq is_key case_ignored keys of
        (w, Inl e) \<Rightarrow> (w, Inl e)
      | (w, Inr guessed) \<Rightarrow>
          (w,
           let keys = keyset_list guessed in
           case items_of seq of
             Inl e \<Rightarrow> Inl e
           | Inr items \<Rightarrow>
               (if items = [] then Inl IndexError
                else
                  (let item_type = type_of (hd items) in
                   if length keys = 0 then
                     dict_comp Inr (zip (range_strs (length items)) items) []
                   else if length keys = 1 then
                     (if item_type = T_dict then
                        dict_comp (\<lambda>item. and_then (item_get item (hd keys))
                                            (\<lambda>i. Inr (i, item))) items []
                      else
                        dict_comp (\<lambda>item. and_then (attr_get item (hd keys))
                                    (\<lambda>i. and_then (attr_dict item)
                                      (\<lambda>d. Inr (i, VDict d)))) items [])
                   else
                     (case py_sort keys of
                        Inl e \<Rightarrow> Inl e
                      | Inr keys \<Rightarrow>
                          (if item_type = T_dict then
                             dict_comp (\<lambda>item. and_then (map_err (item_get item) keys)
                                                 (\<lambda>is. Inr (VTuple is, item))) items []
                           else
                             dict_comp (\<lambda>item. and_then (map_err (attr_get item) keys)
                                         (\<lambda>is. and_then (attr_dict item)
                                           (\<lambda>d. Inr (VTuple is, VDict d)))) items []))))))"


subsection \<open>The index of a sequence, as the specification describes it\<close>

text \<open>
  The specification's account of the index that \<open>sequence_to_dict\<close> builds, to be
  compared with the definition above: with no identified key an element is indexed by
  the string of its position; with one key, by the value of that field; with two or more
  keys, by the tuple of the values of those fields, the keys taken in sorted order, which
  for string keys is the lexicographic order and for integer keys the order of the
  numbers. The value of a field is the entry of a dict or the attribute of an instance;
  the value stored is the element itself, or \<open>vars(element)\<close> for an instance indexed by
  its fields. \<open>last_write\<close> is the value of the last of a list of pairs whose key is
  \<open>k\<close>.
\<close>

definition field_value :: "pyval \<Rightarrow> pyval \<Rightarrow> error + pyval" where
  "field_value item k =
     (case item of
        VDict d \<Rightarrow> dict_get d k
      | VObj a c f \<Rightarrow>
          (if \<not> hashable k then Inl TypeError
           else case k of
                  VStr n \<Rightarrow> (case map_of f n of Some v \<Rightarrow> Inr v | None \<Rightarrow> Inl KeyError)
                | _ \<Rightarrow> Inl KeyError)
      | _ \<Rightarrow> Inl AttributeError)"

fun is_int_key :: "pyval \<Rightarrow> bool" where
  "is_int_key (VBool b) = True"
| "is_int_key (VInt i) = True"
| "is_int_key v = False"

fun key_number :: "pyval \<Rightarrow> int" where
  "key_number (VBool b) = (if b then 1 else 0)"
| "key_number (VInt i) = i"
| "key_number v = 0"

definition sorted_keys :: "pyval list \<Rightarrow> pyval list" where
  "sorted_keys ks =
     (if list_all is_str ks then map VStr (sort (map py_str ks))
      else sort_key key_number ks)"

definition spec_index :: "pyval list \<Rightarrow> nat \<Rightarrow> pyval \<Rightarrow> error + pyval" where
  "spec_index ks i item =
     (case ks of
        [] \<Rightarrow> Inr (VStr (str_int (int i)))
      | [k] \<Rightarrow> field_value item k
      | _ \<Rightarrow> and_then (map_err (field_value item) (sorted_keys ks))
               (\<lambda>vs. Inr (VTuple vs)))"

definition spec_entry :: "pyval list \<Rightarrow> nat \<times> pyval \<Rightarrow> error + pyval \<times> pyval" where
  "spec_entry ks =
     (\<lambda>(i, item).
        and_then (spec_index ks i item) (\<lambda>k.
          if ks = [] then Inr (k, item)
          else (case item of
                  VDict d \<Rightarrow> Inr (k, item)
                | VObj a c f \<Rightarrow> Inr (k, VDict (map (\<lambda>(n, v). (VStr n, v)) f))
                | _ \<Rightarrow> Inl AttributeError)))"

definition last_write :: "(pyval \<times> pyval) list \<Rightarrow> pyval \<Rightarrow> pyval option" where
  "last_write kvs k = map_option snd (find (\<lambda>(k', v). same_or_eq k' k) (rev kvs))"

section \<open>Type comparators (comparator.py)\<close>

text \<open>
  A comparator is a Python function object: \<open>fn\<close> is its identity (what \<open>!=\<close> between
  two comparators looks at; \<open>with_precision\<close> is cached, so equal precisions give the same
  object) and \<open>call\<close> is what it computes. The registry is a dict from a pair of types or
  a single type to a comparator.
\<close>

datatype fn_id =
    F_with_precision nat
  | F_compare_number_with_precision
  | F_compare_bool_with_str
  | F_compare_with_str
  | F_compare_with_none
  | F_lambda_false
  | F_lambda_both_falsy
  | F_user nat

record comparator =
  fn :: fn_id
  call :: "pyval \<Rightarrow> pyval \<Rightarrow> error + pyval"

datatype cmp_key = PairOf pytype pytype | Single pytype

type_synonym comparators = "(cmp_key \<times> comparator) list"

text \<open>
  Conversion of a value to \<open>float\<close> and fixed-point formatting are floating-point
  operations and are not modelled: \<open>float_str v p\<close> stands for
  \<open>'{:.pf}'.format(float(v))\<close> (or the error \<open>float(v)\<close> raises) and is a parameter of
  every definition that reaches it.
\<close>

type_synonym float_str = "pyval \<Rightarrow> nat \<Rightarrow> error + string"

definition DEFAULT_FLOAT_PRECISION :: nat where
  "DEFAULT_FLOAT_PRECISION = 2"

definition as_float_str :: "float_str \<Rightarrow> pyval \<Rightarrow> nat option \<Rightarrow> error + string" where
  "as_float_str fs v precision =
     (case precision of None \<Rightarrow> fs v DEFAULT_FLOAT_PRECISION | Some p \<Rightarrow> fs v p)"

definition compare_number_with_precision ::
  "float_str \<Rightarrow> pyval \<Rightarrow> pyval \<Rightarrow> nat option \<Rightarrow> error + pyval" where
  "compare_number_with_precision fs lhs rhs precision =
     and_then (as_float_str fs lhs precision) (\<lambda>l.
     and_then (as_float_str fs rhs precision) (\<lambda>r. Inr (VBool (l = r))))"

definition TRUE_VALUES :: "pyval list" where
  "TRUE_VALUES = [VBool True, VStr ''True'', VStr ''Yes'', VStr ''Y'', VStr ''Positive'',
                  VInt 1, VStr ''TRUE'', VStr ''yes'']"

definition FALSE_VALUES :: "pyval list" where
  "FALSE_VALUES = [VBool False, VStr ''False'', VStr ''No'', VStr ''N'', VStr ''Negative'',
                   VInt 0, VStr ''FALSE'', VStr ''no'']"

definition as_bool :: "pyval \<Rightarrow> error + bool" where
  "as_bool v =
     (if \<not> hashable v then Inl TypeError
      else if py_in v TRUE_VALUES then Inr True
      else if py_in v FALSE_VALUES then Inr False
      else Inl ValueError)"

definition compare_bool_with_str :: "pyval \<Rightarrow> pyval \<Rightarrow> error + pyval" where
  "compare_bool_with_str other str_value =
     and_then (as_bool str_value) (\<lambda>b. Inr (VBool (py_eq other (VBool b))))"

text \<open>\<open>compare_any_with_str\<close> dispatches on the type of \<open>other\<close>: \<open>bool\<close>, then
  \<open>int\<close> and \<open>float\<close>, otherwise the comparison of \<open>str(other)\<close> with the string.\<close>

definition compare_any_with_str :: "float_str \<Rightarrow> pyval \<Rightarrow> pyval \<Rightarrow> error + pyval" where
  "compare_any_with_str fs other str_value =
     (case other of
        VBool b \<Rightarrow> compare_bool_with_str other str_value
      | VInt i \<Rightarrow> compare_number_with_precision fs other str_value None
      | VNaN i \<Rightarrow> compare_number_with_precision fs other str_value None
      | _ \<Rightarrow> Inr (VBool (py_eq (VStr (py_str other)) str_value)))"

definition compare_with_str :: "float_str \<Rightarrow> pyval \<Rightarrow> pyval \<Rightarrow> error + pyval" where
  "compare_with_str fs lhs rhs =
     (if is_str lhs then compare_any_with_str fs rhs lhs
      else if is_str rhs then compare_any_with_str fs lhs rhs
      else Inl ValueError)"

definition compare_any_with_none :: "pyval \<Rightarrow> pyval" where
  "compare_any_with_none v = VBool (\<not> py_truthy v)"

definition compare_with_none :: "pyval \<Rightarrow> pyval \<Rightarrow> error + pyval" where
  "compare_with_none lhs rhs =
     (if py_eq lhs VNone \<and> py_eq rhs VNone then Inr (VBool True)
      else if py_eq lhs VNone then Inr (compare_any_with_none rhs)
      else if py_eq rhs VNone then Inr (compare_any_with_none lhs)
      else Inl ValueError)"

definition with_precision :: "float_str \<Rightarrow> nat \<Rightarrow> comparator" where
  "with_precision fs precision =
     \<lparr>fn = F_with_precision precision,
      call = (\<lambda>lhs rhs. compare_number_with_precision fs lhs rhs (Some precision))\<rparr>"

definition DEFAULT_TYPE_COMPARATOR :: "float_str \<Rightarrow> comparators" where
  "DEFAULT_TYPE_COMPARATOR fs =
     [(PairOf T_int T_float, with_precision fs 0),
      (PairOf T_int T_Decimal, with_precision fs 0),
      (PairOf T_int T_str, with_precision fs 0),
      (PairOf T_Decimal T_float,
         \<lparr>fn = F_compare_number_with_precision,
          call = (\<lambda>lhs rhs. compare_number_with_precision fs lhs rhs None)\<rparr>),
      (PairOf T_Decimal T_str,
         \<lparr>fn = F_compare_number_with_precision,
          call = (\<lambda>lhs rhs. compare_number_with_precision fs lhs rhs None)\<rparr>),
      (PairOf T_float T_str,
         \<lparr>fn = F_compare_number_with_precision,
          call = (\<lambda>lhs rhs. compare_number_with_precision fs lhs rhs None)\<rparr>),
      (PairOf T_bool T_str, \<lparr>fn = F_compare_bool_with_str, call = compare_bool_with_str\<rparr>),
      (Single T_str, \<lparr>fn = F_compare_with_str, call = compare_with_str fs\<rparr>),
      (PairOf T_str NoneType, \<lparr>fn = F_compare_with_str, call = compare_with_str fs\<rparr>),
      (Single NoneType, \<lparr>fn = F_compare_with_none, call = compare_with_none\<rparr>)]"

text \<open>\<open>not comparators\<close>: the table is \<open>None\<close> or an empty dict.\<close>

fun not_comparators :: "comparators option \<Rightarrow> bool" where
  "not_comparators None = True"
| "not_comparators (Some []) = True"
| "not_comparators (Some (c # cs)) = False"

text \<open>
  \<open>are_equal\<close>. \<open>comparators or dict(DEFAULT_TYPE_COMPARATOR)\<close> takes the default table
  when the argument is \<open>None\<close> or empty. The result is whatever the chosen comparator
  returns, \<open>NotImplemented\<close>, or the boolean \<open>lhs == rhs\<close>.
\<close>

definition are_equal ::
  "float_str \<Rightarrow> pyval \<Rightarrow> pyval \<Rightarrow> comparators option \<Rightarrow> pyval logged" where
  "are_equal fs lhs rhs comparators =
     (let comparators =
            (if not_comparators comparators then DEFAULT_TYPE_COMPARATOR fs
             else the comparators);
          l_type = type_of lhs;
          r_type = type_of rhs
      in case map_of comparators (PairOf l_type r_type) of
           Some c \<Rightarrow>
             ((case map_of comparators (PairOf r_type l_type) of
                 Some c' \<Rightarrow> (if fn c \<noteq> fn c' then [PairComparatorsDiffer l_type r_type] else [])
               | None \<Rightarrow> []),
              call c lhs rhs)
         | None \<Rightarrow>
             (case map_of comparators (PairOf r_type l_type) of
                Some c \<Rightarrow> ([], call c rhs lhs)
              | None \<Rightarrow>
                  (case map_of comparators (Single l_type) of
                     Some c \<Rightarrow>
                       ((case map_of comparators (Single r_type) of
                           Some c' \<Rightarrow>
                             (if fn c \<noteq> fn c' then [SingleComparatorsDiffer l_type r_type]
                              else [])
                         | None \<Rightarrow> []),
                        call c lhs rhs)
                   | None \<Rightarrow>
                       (case map_of comparators (Single r_type) of
                          Some c \<Rightarrow> ([], call c rhs lhs)
                        | None \<Rightarrow>
                            (if l_type \<noteq> r_type \<or> is_Collection_type l_type
                             then ([], Inr VNotImplemented)
                             else ([], Inr (VBool (py_eq lhs rhs))))))))"

text \<open>
  \<open>with_comparators\<close> returns the closure \<open>lambda lhs, rhs: are_equal(lhs, rhs,
  comparators)\<close>. With no table given, \<open>comparators\<close> is a copy of the default table
  whose \<open>(str, NoneType)\<close> entry is replaced (\<open>default_copy\<close>).
\<close>

definition default_copy :: "float_str \<Rightarrow> bool \<Rightarrow> comparators" where
  "default_copy fs none_dif_default =
     (if none_dif_default then
        AList.update (PairOf T_str NoneType)
          \<lparr>fn = F_lambda_false, call = (\<lambda>lhs rhs. Inr (VBool False))\<rparr>
          (AList.delete (Single NoneType) (DEFAULT_TYPE_COMPARATOR fs))
      else
        AList.update (PairOf T_str NoneType)
          \<lparr>fn = F_lambda_both_falsy,
           call = (\<lambda>lhs rhs. Inr (VBool (\<not> py_truthy lhs \<and> \<not> py_truthy rhs)))\<rparr>
          (DEFAULT_TYPE_COMPARATOR fs))"

definition with_comparators ::
  "float_str \<Rightarrow> comparators option \<Rightarrow> bool \<Rightarrow> (pyval \<Rightarrow> pyval \<Rightarrow> pyval logged)" where
  "with_comparators fs comparators none_dif_default =
     (let comparators =
            (if not_comparators comparators then Some (default_copy fs none_dif_default)
             else comparators)
      in (\<lambda>lhs rhs. are_equal fs lhs rhs comparators))"

section \<open>Output formatters (delta\_output.py)\<close>

text \<open>
  A formatter takes the difference indicator and the two values. The indicator is a
  value: a named comparator may return something other than a boolean, and the
  formatters test it with \<open>if is_dif\<close>.
\<close>

type_synonym formatter = "pyval \<Rightarrow> pyval \<Rightarrow> pyval \<Rightarrow> pyval"

definition get_value_abbrev :: "pyval \<Rightarrow> pyval" where
  "get_value_abbrev v =
     (case v of
        VNone \<Rightarrow> VNone
      | VList xs \<Rightarrow> VStr ''[...]''
      | VDict d \<Rightarrow> VStr ''{...}''
      | VTuple xs \<Rightarrow> VStr ''(...)''
      | _ \<Rightarrow> v)"

definition STR_FORMAT :: "pyval \<Rightarrow> pyval \<Rightarrow> string" where
  "STR_FORMAT l r = py_str l @ '' | '' @ py_str r"

definition no_flag_tuple_abbrev :: formatter where
  "no_flag_tuple_abbrev is_dif left right =
     (if py_truthy is_dif then VTuple [get_value_abbrev left, get_value_abbrev right]
      else VNone)"

definition as_tuple :: formatter where
  "as_tuple is_dif left right = VTuple [is_dif, left, right]"

definition as_none_or_tuple :: formatter where
  "as_none_or_tuple is_dif left right =
     (if py_truthy is_dif then VTuple [left, right] else VNone)"

definition type_included :: formatter where
  "type_included is_dif left right =
     VTuple [is_dif, left, right, VType (type_of left), VType (type_of right)]"

definition as_none_or_str_raw :: formatter where
  "as_none_or_str_raw is_dif left right =
     (if py_truthy is_dif then VStr (STR_FORMAT left right) else VNone)"

definition as_none_or_str :: formatter where
  "as_none_or_str is_dif left right =
     (if py_truthy is_dif
      then VStr (STR_FORMAT (get_value_abbrev left) (get_value_abbrev right))
      else VNone)"

definition as_none_or_dict_raw :: formatter where
  "as_none_or_dict_raw is_dif left right =
     (if \<not> py_truthy is_dif then VNone
      else VDict [(VStr ''LEFT'', left), (VStr ''RIGHT'', right)])"

definition as_none_or_dict :: formatter where
  "as_none_or_dict is_dif left right =
     (if \<not> py_truthy is_dif then VNone
      else VDict [(VStr ''LEFT'', get_value_abbrev left),
                  (VStr ''RIGHT'', get_value_abbrev right)])"

text \<open>The table of registered formatters, as the module creates it.\<close>

definition Output_Buffer :: "(DeltaConfig \<times> formatter) list" where
  "Output_Buffer =
     [(OutputDefault, no_flag_tuple_abbrev),
      (OutputWithFlag, as_tuple),
      (OutputAllDetails, type_included),
      (OutputNoneOrDict, as_none_or_dict),
      (OutputNoneOrDictRaw, as_none_or_dict_raw),
      (OutputDeltaAsStr, as_none_or_str),
      (OutputNoneOrStrRaw, as_none_or_str_raw)]"

definition get_output :: "DeltaConfig \<Rightarrow> error + formatter" where
  "get_output config =
     (let output_config = config AND OutputFormatMask in
      case map_of Output_Buffer output_config of
        None \<Rightarrow> Inl TypeError
      | Some out \<Rightarrow>
          (if matches config OutputKeepAllDetails None then Inr out
           else Inr (\<lambda>is_dif left right.
                       out is_dif (get_value_abbrev left) (get_value_abbrev right))))"

section \<open>The comparison engine (core.py)\<close>

definition DEFAULT_DELTA_CONFIG :: DeltaConfig where
  "DEFAULT_DELTA_CONFIG =
     CaseIgnored OR SpaceTrimmed OR IdAsKey OR MissingAsNone OR OutputDefault"

text \<open>
  The engine keeps its formatter in the attribute \<open>output\<close> (the field \<open>output_of\<close>
  here). A named comparator is a callable \<open>(lhs, rhs, key_path)\<close> that returns a boolean or a
  delta, or raises. The named comparators are a dict, looked through in insertion order.
\<close>

type_synonym named_comparator = "pyval \<Rightarrow> pyval \<Rightarrow> string \<Rightarrow> error + pyval"

record DeepDelta =
  config :: DeltaConfig
  output_of :: formatter
  typed_equal :: "pyval \<Rightarrow> pyval \<Rightarrow> error + pyval"
  named_comparators :: "(pyval \<times> named_comparator) list"
  keys_excluded :: "pyval list"

text \<open>
  \<open>DeepDelta.__init__\<close>. \<open>config or DEFAULT_DELTA_CONFIG\<close> takes the default for
  \<open>None\<close> and for the empty flag. The warnings of the type comparison go to the logger
  and are not part of what the engine returns.
\<close>

definition DeepDelta_init ::
  "float_str \<Rightarrow> DeltaConfig option \<Rightarrow> comparators option
     \<Rightarrow> (pyval \<times> named_comparator) list option \<Rightarrow> pyval list \<Rightarrow> error + DeepDelta" where
  "DeepDelta_init fs cfg type_comparators named excluded_keys =
     (let c = (case cfg of None \<Rightarrow> DEFAULT_DELTA_CONFIG
               | Some c' \<Rightarrow> (if c' = 0 then DEFAULT_DELTA_CONFIG else c'))
      in case get_output c of
           Inl e \<Rightarrow> Inl e
         | Inr out \<Rightarrow>
             Inr \<lparr>config = c,
                  output_of = out,
                  typed_equal =
                    (\<lambda>lhs rhs. snd (with_comparators fs type_comparators
                                        (matches c NoneUnequalDefault None) lhs rhs)),
                  named_comparators = (case named of None \<Rightarrow> [] | Some n \<Rightarrow> n),
                  keys_excluded = excluded_keys\<rparr>)"

definition as_delta :: "DeepDelta \<Rightarrow> pyval \<Rightarrow> pyval \<Rightarrow> pyval \<Rightarrow> pyval" where
  "as_delta self as_dif lhs rhs = output_of self as_dif lhs rhs"

fun first_match ::
  "bool \<Rightarrow> string \<Rightarrow> (pyval \<times> 'a) list \<Rightarrow> error + (pyval \<times> 'a) option" where
  "first_match case_ignored key_path [] = Inr None"
| "first_match case_ignored key_path ((k, f) # rest) =
     (case key_matches k (VStr key_path) case_ignored of
        Inl e \<Rightarrow> Inl e
      | Inr b \<Rightarrow> (if b then Inr (Some (k, f)) else first_match case_ignored key_path rest))"

definition get_named_comparator ::
  "DeepDelta \<Rightarrow> string \<Rightarrow> error + named_comparator option" where
  "get_named_comparator self key_path =
     (let case_ignored = matches (config self) KeyCaseIgnored None in
      and_then (first_match case_ignored key_path (named_comparators self))
        (\<lambda>m. Inr (map_option snd m)))"

definition is_excluded :: "DeepDelta \<Rightarrow> string \<Rightarrow> error + bool" where
  "is_excluded self key_path =
     (let case_ignored = matches (config self) KeyCaseIgnored None in
      and_then (first_match case_ignored key_path (map (\<lambda>k. (k, ())) (keys_excluded self)))
        (\<lambda>m. Inr (m \<noteq> None)))"

text \<open>
  \<open>delta_to_keep\<close>, as the condition of the comprehension that prunes the delta: the
  truth value of what the method returns.
\<close>

definition delta_to_keep :: "DeepDelta \<Rightarrow> pyval \<Rightarrow> error + bool" where
  "delta_to_keep self v =
     (if matches (config self) OutputKeepAllDetails None then Inr True
      else if v = VNone then Inr False
      else if matches (config self) OutputWithFlag None \<and> type_of v = T_tuple then
        (case v of VTuple (x # xs) \<Rightarrow> Inr (py_truthy x) | _ \<Rightarrow> Inl IndexError)
      else if is_Collection_type (type_of v) then Inr (py_truthy v)
      else Inr (py_truthy v))"

text \<open>
  The value a side contributes for a key: the value under the last of its matching
  keys, and for a side with no matching key \<open>None\<close> or the \<open>MISSING\<close> sentinel.
\<close>

definition side_value ::
  "(pyval \<times> pyval) list \<Rightarrow> pyval list \<Rightarrow> bool \<Rightarrow> error + pyval" where
  "side_value d ks missing_as_none =
     (if length ks > 0 then and_then (neg1 ks) (dict_get d)
      else Inr (if missing_as_none then VNone else MISSING))"

text \<open>
  The body of the loop of \<open>compare_dict\<close> for one normalised key: \<open>None\<close> when the key
  path is excluded, otherwise the entry \<open>delta[key]\<close>. \<open>rec\<close> is the recursive call of
  \<open>compare_any\<close>.
\<close>

definition compare_key ::
  "(pyval \<Rightarrow> pyval \<Rightarrow> string option \<Rightarrow> error + pyval) \<Rightarrow> DeepDelta
     \<Rightarrow> (pyval \<times> pyval) list \<Rightarrow> (pyval \<times> pyval) list \<Rightarrow> pyval list \<Rightarrow> pyval list
     \<Rightarrow> string \<Rightarrow> pyval \<Rightarrow> error + pyval option" where
  "compare_key rec self lhs rhs l_keys r_keys dict_path key =
     (let case_ignored = matches (config self) KeyCaseIgnored None;
          key_space_trimmed = matches (config self) KeySpaceTrimmed None;
          missing_as_none = matches (config self) MissingAsNone None;
          key_path = dict_path @ [PATH_SEPARATOR] @ py_str key
      in
      and_then (is_excluded self key_path) (\<lambda>excluded.
        if excluded then Inr None
        else
          and_then (snd (matched_keys key l_keys case_ignored key_space_trimmed)) (\<lambda>lks.
          and_then (snd (matched_keys key r_keys case_ignored key_space_trimmed)) (\<lambda>rks.
          and_then (side_value lhs lks missing_as_none) (\<lambda>l_value.
          and_then (side_value rhs rks missing_as_none) (\<lambda>r_value.
          and_then (get_named_comparator self key_path) (\<lambda>named_comparator.
            case named_comparator of
              Some nc \<Rightarrow> and_then (nc l_value r_value key_path) (\<lambda>v. Inr (Some v))
            | None \<Rightarrow>
                if py_eq l_value r_value
                then Inr (Some (as_delta self (VBool False) l_value r_value))
                else and_then (rec l_value r_value (Some key_path))
                       (\<lambda>v. Inr (Some v)))))))))"

fun compare_keys ::
  "(pyval \<Rightarrow> error + pyval option) \<Rightarrow> pyval list \<Rightarrow> (pyval \<times> pyval) list
     \<Rightarrow> error + (pyval \<times> pyval) list" where
  "compare_keys body [] delta = Inr delta"
| "compare_keys body (key # keys) delta =
     (case body key of
        Inl e \<Rightarrow> Inl e
      | Inr None \<Rightarrow> compare_keys body keys delta
      | Inr (Some v) \<Rightarrow>
          (case dict_set delta key v of
             Inl e \<Rightarrow> Inl e
           | Inr delta' \<Rightarrow> compare_keys body keys delta'))"

definition not_excluded_keys ::
  "DeepDelta \<Rightarrow> string \<Rightarrow> (pyval \<times> pyval) list \<Rightarrow> error + pyval list" where
  "not_excluded_keys self dict_path d =
     filter_err
       (\<lambda>k. and_then (is_excluded self (dict_path @ [PATH_SEPARATOR] @ py_str k))
               (\<lambda>b. Inr (\<not> b)))
       (map fst d)"

text \<open>
  \<open>compare_dict\<close>. The keys of each side and the normalised keys are sets, gone through
  here in the order of first insertion. The order matters only where several keys of one
  side match the same normalised key (the value of the last of them is used) and where
  more than one key raises (the first error is the one raised).
\<close>

definition union :: "pyval list \<Rightarrow> pyval list \<Rightarrow> pyval list" where
  "union l r = l @ filter (\<lambda>k. \<not> py_in k l) r"

definition compare_dict_with ::
  "(pyval \<Rightarrow> pyval \<Rightarrow> string option \<Rightarrow> error + pyval) \<Rightarrow> DeepDelta
     \<Rightarrow> (pyval \<times> pyval) list \<Rightarrow> (pyval \<times> pyval) list \<Rightarrow> string \<Rightarrow> error + pyval" where
  "compare_dict_with rec self lhs rhs dict_path =
     (let case_ignored = matches (config self) KeyCaseIgnored None in
      and_then (not_excluded_keys self dict_path lhs) (\<lambda>l_keys.
      and_then (not_excluded_keys self dict_path rhs) (\<lambda>r_keys.
      and_then (set_of_list []
                  (map (\<lambda>k. normalize k case_ignored False) (union l_keys r_keys)))
        (\<lambda>all_keys.
      and_then (compare_keys (compare_key rec self lhs rhs l_keys r_keys dict_path)
                  all_keys [])
        (\<lambda>delta.
      and_then (filter_err (\<lambda>(k, v). delta_to_keep self v) delta)
        (\<lambda>result. Inr (VDict result)))))))"


text \<open>\<open>key_path or ''\<close>: the empty path for \<open>None\<close>.\<close>

definition path_or_empty :: "string option \<Rightarrow> string" where
  "path_or_empty key_path = (case key_path of None \<Rightarrow> [] | Some p \<Rightarrow> p)"

text \<open>
  \<open>compare_sequence\<close>: both sequences are turned into dicts, which are compared as
  dicts. \<open>l_keys.intersection(r_keys)\<close> raises \<open>AttributeError\<close> when \<open>guess_keys\<close>
  returned the dict \<open>{}\<close> for the left sequence.
\<close>

definition compare_sequence_with ::
  "(pyval \<Rightarrow> pyval \<Rightarrow> string option \<Rightarrow> error + pyval) \<Rightarrow> DeepDelta \<Rightarrow> pyval \<Rightarrow> pyval
     \<Rightarrow> string option \<Rightarrow> key_pred option \<Rightarrow> pyval list \<Rightarrow> error + pyval" where
  "compare_sequence_with rec self lhs rhs seq_path is_key keys =
     (let seq_path = path_or_empty seq_path;
          case_ignored = matches (config self) KeyCaseIgnored None;
          is_key = (case is_key of
                      Some p \<Rightarrow> Some p
                    | None \<Rightarrow> (if matches (config self) IdAsKey None
                               then Some key_denoted_by_id else None))
      in
      and_then (snd (guess_keys lhs is_key case_ignored keys)) (\<lambda>l_keys.
      and_then (snd (guess_keys rhs is_key case_ignored keys)) (\<lambda>r_keys.
      and_then (case l_keys of
                  KeySet l \<Rightarrow> Inr (filter (\<lambda>k. py_in k (keyset_list r_keys)) l)
                | EmptyDict \<Rightarrow> Inl AttributeError) (\<lambda>keys.
      and_then (snd (sequence_to_dict lhs is_key case_ignored keys)) (\<lambda>l_dict.
      and_then (snd (sequence_to_dict rhs is_key case_ignored keys)) (\<lambda>r_dict.
        compare_dict_with rec self l_dict r_dict seq_path))))))"

text \<open>
  \<open>compare_any\<close>. The recursion of the engine follows the nesting of the values; the
  first argument is the depth of recursion still allowed, and going beyond it raises
  \<open>RecursionError\<close>, as exceeding the interpreter's recursion limit does.
\<close>

fun the_dict :: "pyval \<Rightarrow> (pyval \<times> pyval) list" where
  "the_dict (VDict d) = d"
| "the_dict v = []"

fun compare_any ::
  "nat \<Rightarrow> DeepDelta \<Rightarrow> pyval \<Rightarrow> pyval \<Rightarrow> string option \<Rightarrow> error + pyval" where
  "compare_any 0 self lhs rhs key_path = Inl RecursionError"
| "compare_any (Suc n) self lhs rhs key_path =
     (let key_path = path_or_empty key_path in
      and_then (get_named_comparator self key_path) (\<lambda>named_comparator.
        case named_comparator of
          Some nc \<Rightarrow>
            and_then (nc lhs rhs key_path) (\<lambda>r. Inr (as_delta self r lhs rhs))
        | None \<Rightarrow>
            if py_eq lhs rhs then Inr (as_delta self (VBool False) lhs rhs)
            else
              (let value_space_trimmed = matches (config self) ValueSpaceTrimmed None in
               if is_str lhs \<and> is_str rhs then
                 (let l = py_str lhs; r = py_str rhs;
                      is_dif =
                        (if matches (config self) ValueCaseIgnored None then
                           (if value_space_trimmed
                            then casefold (strip l) \<noteq> casefold (strip r)
                            else casefold l \<noteq> casefold r)
                         else
                           (if value_space_trimmed then strip l \<noteq> strip r else l \<noteq> r))
                  in Inr (as_delta self (VBool is_dif) lhs rhs))
               else if is_Mapping lhs \<and> is_Mapping rhs then
                 compare_dict_with (compare_any n self) self (the_dict lhs) (the_dict rhs)
                   key_path
               else if is_Sequence lhs \<and> is_Sequence rhs then
                 compare_sequence_with (compare_any n self) self lhs rhs (Some key_path)
                   None []
               else
                 and_then (typed_equal self lhs rhs) (\<lambda>typed_result.
                   case typed_result of
                     VBool b \<Rightarrow> Inr (as_delta self (VBool (\<not> b)) lhs rhs)
                   | _ \<Rightarrow> Inr (as_delta self (VBool True) lhs rhs)))))"

declare compare_any.simps [simp del]


definition compare_sequence ::
  "nat \<Rightarrow> DeepDelta \<Rightarrow> pyval \<Rightarrow> pyval \<Rightarrow> string option \<Rightarrow> key_pred option \<Rightarrow> pyval list
     \<Rightarrow> error + pyval" where
  "compare_sequence n self lhs rhs seq_path is_key keys =
     compare_sequence_with (compare_any n self) self lhs rhs seq_path is_key keys"

text \<open>The entry point \<open>DeepDelta.compare\<close>.\<close>

definition compare ::
  "float_str \<Rightarrow> nat \<Rightarrow> pyval \<Rightarrow> pyval \<Rightarrow> DeltaConfig option \<Rightarrow> comparators option
     \<Rightarrow> (pyval \<times> named_comparator) list option \<Rightarrow> pyval list \<Rightarrow> error + pyval" where
  "compare fs n lhs rhs options type_comparators named excluded_keys =
     and_then (DeepDelta_init fs options type_comparators named excluded_keys)
       (\<lambda>comparator. compare_any n comparator lhs rhs None)"


subsection \<open>Fixtures for running the engine\<close>

text \<open>
  A \<open>float_str\<close> for runs that never convert a value to \<open>float\<close>; two type comparators,
  \<open>lambda lhs, rhs: lhs\<close> and \<open>lambda lhs, rhs: rhs\<close>, which show the order of the
  arguments they are called with; and two named comparators, \<open>lambda l, r, p: True\<close> and
  \<open>lambda l, r, p: None\<close>.
\<close>

definition no_float_str :: float_str where
  "no_float_str v p = Inl TypeError"

definition first_argument :: comparator where
  "first_argument = \<lparr>fn = F_user 0, call = (\<lambda>lhs rhs. Inr lhs)\<rparr>"

definition second_argument :: comparator where
  "second_argument = \<lparr>fn = F_user 1, call = (\<lambda>lhs rhs. Inr rhs)\<rparr>"

definition always_different :: named_comparator where
  "always_different l r p = Inr (VBool True)"

definition always_none :: named_comparator where
  "always_none l r p = Inr VNone"

text \<open>
  Engines as \<open>DeepDelta(...)\<close> constructs them: with the default configuration, with
  the missing-as-none policy switched off, and with \<open>always_different\<close> registered as
  the named comparator of the key \<open>k\<close>, or of the root path (the empty specifier).
\<close>

definition default_engine :: DeepDelta where
  "default_engine = projr (DeepDelta_init no_float_str None None None [])"


definition named_k_engine :: DeepDelta where
  "named_k_engine =
     projr (DeepDelta_init no_float_str None None (Some [(VStr ''k'', always_different)]) [])"

definition named_root_engine :: DeepDelta where
  "named_root_engine =
     projr (DeepDelta_init no_float_str None None (Some [(VStr [], always_different)]) [])"

section \<open>Properties\<close>

lemmas DeltaConfig_defs =
  KeyCaseIgnored_def ValueCaseIgnored_def CaseIgnored_def SpaceTrimmed_def
  KeySpaceTrimmed_def ValueSpaceTrimmed_def IdAsKey_def NoneUnequalDefault_def
  MissingAsNone_def OutputKeepAllDetails_def OutputWithDeltaIndicator_def
  OutputIncludeValueTypes_def OutputDeltaFormatMask_def OutputDeltaAsTuple_def
  OutputDeltaAsDict_def OutputDeltaAsStr_def OutputDeltaAsCustom_def OutputFormatMask_def
  OutputDefault_def OutputWithFlag_def OutputAllDetails_def OutputNoneOrDict_def
  OutputNoneOrDictRaw_def OutputNoneOrStr_def OutputNoneOrStrRaw_def

subsection \<open>DeltaConfig.matches\<close>

lemma matches_no_mask: "matches self flag None = (self AND flag = flag)"
  by (simp add: matches_def mask_or_flags_def)

lemma matches_empty_mask: "matches self flag (Some 0) = (self AND flag = flag)"
  by (simp add: matches_def mask_or_flags_def)

lemma matches_mask: "m \<noteq> 0 \<Longrightarrow> matches self flag (Some m) = (self AND m = flag)"
  by (simp add: matches_def mask_or_flags_def)

lemma and_mask_within: "self AND m = flag \<Longrightarrow> flag AND m = (flag :: DeltaConfig)"
proof -
  assume e: "self AND m = flag"
  have "flag AND m = (self AND m) AND m" using e by simp
  also have "\<dots> = self AND m" by (simp add: and.assoc)
  finally show ?thesis using e by simp
qed

lemma or_absorb_within: "flag AND m = flag \<Longrightarrow> m OR flag = (m :: DeltaConfig)"
proof -
  assume "flag AND m = flag"
  then have "m OR flag = m OR (flag AND m)" by simp
  also have "\<dots> = m" by (simp add: and.commute)
  finally show ?thesis .
qed

text \<open>
  C2, as stated, fails: with the configuration \<open>IdAsKey\<close>, the flag \<open>IdAsKey\<close> and
  the mask \<open>SpaceTrimmed\<close>, \<open>matches\<close> is \<open>False\<close>, while
  \<open>(self AND (mask OR flag)) == flag\<close> with a bitwise \<open>OR\<close> is \<open>True\<close>.
\<close>

theorem matches_bitwise_or_counterexample:
  "matches IdAsKey IdAsKey (Some SpaceTrimmed)
     \<noteq> (IdAsKey AND (SpaceTrimmed OR IdAsKey) = IdAsKey)"
  by (simp add: matches_def mask_or_flags_def DeltaConfig_defs)

text \<open>
  C2 (amended). \<open>matches(flag, mask)\<close> is \<open>(self AND m) == flag\<close>, where \<open>m\<close> is the
  mask when a non-empty mask is given and the flag otherwise (\<open>mask or flags\<close> is
  Python's short-circuit \<open>or\<close>). This is \<open>(self AND (mask OR flag)) == flag\<close> with a
  bitwise \<open>OR\<close> whenever the bits of the flag lie within the mask; for a flag with bits
  outside a given non-empty mask, \<open>matches\<close> is \<open>False\<close>.
\<close>

theorem matches_short_circuit_or:
  "matches self flag None = (self AND flag = flag)
   \<and> matches self flag (Some 0) = (self AND flag = flag)
   \<and> (m \<noteq> 0 \<longrightarrow> matches self flag (Some m) = (self AND m = flag))
   \<and> (m \<noteq> 0 \<and> flag AND m = flag \<longrightarrow>
        matches self flag (Some m) = (self AND (m OR flag) = flag))
   \<and> (m \<noteq> 0 \<and> flag AND m \<noteq> flag \<longrightarrow> \<not> matches self flag (Some m))"
proof (intro conjI impI)
  show "matches self flag None = (self AND flag = flag)"
    by (rule matches_no_mask)
  show "matches self flag (Some 0) = (self AND flag = flag)"
    by (rule matches_empty_mask)
  show "matches self flag (Some m) = (self AND m = flag)" if "m \<noteq> 0"
    using that by (rule matches_mask)
  show "matches self flag (Some m) = (self AND (m OR flag) = flag)"
    if "m \<noteq> 0 \<and> flag AND m = flag"
    using that by (simp add: matches_mask or_absorb_within)
  show "\<not> matches self flag (Some m)" if "m \<noteq> 0 \<and> flag AND m \<noteq> flag"
    using that and_mask_within [of self m flag] by (auto simp: matches_mask)
qed

theorem matches_short_circuit_or_witness:
  "SpaceTrimmed \<noteq> 0 \<and> KeySpaceTrimmed AND SpaceTrimmed = KeySpaceTrimmed
   \<and> matches (KeySpaceTrimmed OR IdAsKey) KeySpaceTrimmed (Some SpaceTrimmed)
   \<and> ((KeySpaceTrimmed OR IdAsKey) AND (SpaceTrimmed OR KeySpaceTrimmed) = KeySpaceTrimmed)
   \<and> IdAsKey AND SpaceTrimmed \<noteq> IdAsKey
   \<and> \<not> matches IdAsKey IdAsKey (Some SpaceTrimmed)"
proof -
  have a: "SpaceTrimmed \<noteq> 0 \<and> KeySpaceTrimmed AND SpaceTrimmed = KeySpaceTrimmed"
    by (simp add: DeltaConfig_defs)
  have a': "SpaceTrimmed \<noteq> 0 \<and> IdAsKey AND SpaceTrimmed \<noteq> IdAsKey"
    by (simp add: DeltaConfig_defs)
  have e: "(KeySpaceTrimmed OR IdAsKey) AND (SpaceTrimmed OR KeySpaceTrimmed)
             = KeySpaceTrimmed"
    by (simp add: DeltaConfig_defs)
  have "matches (KeySpaceTrimmed OR IdAsKey) KeySpaceTrimmed (Some SpaceTrimmed)
          = ((KeySpaceTrimmed OR IdAsKey) AND (SpaceTrimmed OR KeySpaceTrimmed)
               = KeySpaceTrimmed)"
    using matches_short_circuit_or
            [of "KeySpaceTrimmed OR IdAsKey" KeySpaceTrimmed SpaceTrimmed] a
    by blast
  then have b: "matches (KeySpaceTrimmed OR IdAsKey) KeySpaceTrimmed (Some SpaceTrimmed)"
    using e by simp
  have c: "\<not> matches IdAsKey IdAsKey (Some SpaceTrimmed)"
    using matches_short_circuit_or [of IdAsKey IdAsKey SpaceTrimmed] a'
    by blast
  from a a' e b c show ?thesis by blast
qed


subsection \<open>Key matching\<close>

lemma py_split_not_Nil: "py_split sep s \<noteq> []"
  by (induction s) (auto split: list.splits)

lemma py_split_no_sep: "sep \<notin> set s \<Longrightarrow> py_split sep s = [s]"
  by (induction s) auto

lemma py_split_sep: "sep \<in> set s \<Longrightarrow> \<exists>w v ws. py_split sep s = w # v # ws"
proof (induction s)
  case Nil
  then show ?case by simp
next
  case (Cons c cs)
  show ?case
  proof (cases "c = sep")
    case True
    then show ?thesis
      using py_split_not_Nil [of sep cs] by (cases "py_split sep cs") auto
  next
    case False
    with Cons show ?thesis by auto
  qed
qed

lemma last_py_split: "last (py_split sep s) = rev (takeWhile (\<lambda>c. c \<noteq> sep) (rev s))"
proof (induction s)
  case Nil
  then show ?case by simp
next
  case (Cons c cs)
  show ?case
  proof (cases "sep \<in> set cs")
    case True
    then obtain w v ws where e: "py_split sep cs = w # v # ws"
      using py_split_sep by blast
    have t: "takeWhile (\<lambda>c. c \<noteq> sep) (rev cs @ [c]) = takeWhile (\<lambda>c. c \<noteq> sep) (rev cs)"
      using True by (auto simp add: takeWhile_append)
    show ?thesis using Cons e t by simp
  next
    case False
    then have e: "py_split sep cs = [cs]"
      by (rule py_split_no_sep)
    have t: "takeWhile (\<lambda>c. c \<noteq> sep) (rev cs) = rev cs"
      using False by auto
    show ?thesis using e t False by (auto simp add: takeWhile_append)
  qed
qed

lemma neg1_py_split: "neg1 (py_split PATH_SEPARATOR p) = Inr (last_segment p)"
  by (simp add: neg1_def py_split_not_Nil last_py_split last_segment_def)

lemma endswith_suffix: "endswith s k = suffix k s"
proof
  assume "endswith s k"
  then have "s = take (length s - length k) s @ k"
    unfolding endswith_def by (metis append_take_drop_id)
  then show "suffix k s"
    unfolding suffix_def by blast
next
  assume "suffix k s"
  then obtain p where "s = p @ k"
    unfolding suffix_def by blast
  then show "endswith s k"
    unfolding endswith_def by simp
qed

text \<open>A string key path never makes \<open>key_matches\<close> raise.\<close>

lemma key_matches_str_total:
  "\<exists>b. key_matches_str key (VStr p) case_ignored = Inr b"
  by (simp add: key_matches_str_def neg1_py_split)

lemma key_matches_total: "\<exists>b. key_matches kp (VStr p) case_ignored = Inr b"
  by (cases kp) (auto simp add: key_matches_def key_matches_str_total)

text \<open>
  C7. For a string specifier \<open>key\<close> and a string key path \<open>path\<close>: without a separator
  in it, \<open>key\<close> matches exactly when it equals the last segment of the path; starting
  with the separator, exactly when it equals the whole path; with a separator but not
  at its start, exactly when the path ends with it. With \<open>case_ignored\<close> each comparison
  is between the case-folded texts.
\<close>

theorem key_matches_three_forms:
  "(PATH_SEPARATOR \<notin> set key \<longrightarrow>
      key_matches (VStr key) (VStr path) case_ignored =
        Inr (if case_ignored then casefold key = casefold (last_segment path)
             else key = last_segment path))
   \<and> (key \<noteq> [] \<and> hd key = PATH_SEPARATOR \<longrightarrow>
      key_matches (VStr key) (VStr path) case_ignored =
        Inr (if case_ignored then casefold key = casefold path else key = path))
   \<and> (PATH_SEPARATOR \<in> set key \<and> hd key \<noteq> PATH_SEPARATOR \<longrightarrow>
      key_matches (VStr key) (VStr path) case_ignored =
        Inr (if case_ignored then suffix (casefold key) (casefold path)
             else suffix key path))"
proof (intro conjI impI)
  assume "PATH_SEPARATOR \<notin> set key"
  then show "key_matches (VStr key) (VStr path) case_ignored =
      Inr (if case_ignored then casefold key = casefold (last_segment path)
           else key = last_segment path)"
    by (simp add: key_matches_def key_matches_str_def neg1_py_split)
next
  assume h: "key \<noteq> [] \<and> hd key = PATH_SEPARATOR"
  then have "PATH_SEPARATOR \<in> set key"
    by (cases key) auto
  with h show "key_matches (VStr key) (VStr path) case_ignored =
      Inr (if case_ignored then casefold key = casefold path else key = path)"
    by (simp add: key_matches_def key_matches_str_def)
next
  assume "PATH_SEPARATOR \<in> set key \<and> hd key \<noteq> PATH_SEPARATOR"
  then show "key_matches (VStr key) (VStr path) case_ignored =
      Inr (if case_ignored then suffix (casefold key) (casefold path)
           else suffix key path)"
    by (simp add: key_matches_def key_matches_str_def endswith_suffix)
qed

theorem key_matches_three_forms_witness:
  "PATH_SEPARATOR \<notin> set ''key1''
   \<and> key_matches (VStr ''key1'') (VStr ''>abc>>Key1'') True = Inr True
   \<and> key_matches (VStr ''key1'') (VStr ''>abc>>Key1'') False = Inr False
   \<and> ''>ABc>LEAF'' \<noteq> [] \<and> hd ''>ABc>LEAF'' = PATH_SEPARATOR
   \<and> key_matches (VStr ''>ABc>LEAF'') (VStr ''>abc>leaf'') True = Inr True
   \<and> key_matches (VStr ''>ABc>LEAF'') (VStr ''>root>abc>leaf'') True = Inr False
   \<and> PATH_SEPARATOR \<in> set ''F>more'' \<and> hd ''F>more'' \<noteq> PATH_SEPARATOR
   \<and> key_matches (VStr ''F>more'') (VStr ''>f>Leaf>more'') True = Inr True
   \<and> key_matches (VStr ''F>more'') (VStr ''>f>Leaf>more'') False = Inr False"
proof -
  have h1: "PATH_SEPARATOR \<notin> set ''key1''"
    by (simp add: PATH_SEPARATOR_def)
  have h2: "''>ABc>LEAF'' \<noteq> [] \<and> hd ''>ABc>LEAF'' = PATH_SEPARATOR"
    by (simp add: PATH_SEPARATOR_def)
  have h3: "PATH_SEPARATOR \<in> set ''F>more'' \<and> hd ''F>more'' \<noteq> PATH_SEPARATOR"
    by (simp add: PATH_SEPARATOR_def)
  have s1: "last_segment ''>abc>>Key1'' = ''Key1''"
    by (simp add: last_segment_def PATH_SEPARATOR_def)
  have c1: "casefold ''key1'' = casefold ''Key1''" "casefold ''>ABc>LEAF'' = ''>abc>leaf''"
    "casefold ''>abc>leaf'' = ''>abc>leaf''" "casefold ''>root>abc>leaf'' = ''>root>abc>leaf''"
    "casefold ''F>more'' = ''f>more''" "casefold ''>f>Leaf>more'' = ''>f>leaf>more''"
    by code_simp+
  have s2: "suffix ''f>more'' ''>f>leaf>more''" "\<not> suffix ''F>more'' ''>f>Leaf>more''"
    by (simp_all add: suffix_def append_eq_Cons_conv)
  have a: "key_matches (VStr ''key1'') (VStr ''>abc>>Key1'') True = Inr True"
    using key_matches_three_forms [of "''key1''" "''>abc>>Key1''" True] h1 s1 c1 by simp
  have b: "key_matches (VStr ''key1'') (VStr ''>abc>>Key1'') False = Inr False"
    using key_matches_three_forms [of "''key1''" "''>abc>>Key1''" False] h1 s1 by simp
  have c: "key_matches (VStr ''>ABc>LEAF'') (VStr ''>abc>leaf'') True = Inr True"
    using key_matches_three_forms [of "''>ABc>LEAF''" "''>abc>leaf''" True] h2 c1 by simp
  have d: "key_matches (VStr ''>ABc>LEAF'') (VStr ''>root>abc>leaf'') True = Inr False"
    using key_matches_three_forms [of "''>ABc>LEAF''" "''>root>abc>leaf''" True] h2 c1
    by simp
  have e: "key_matches (VStr ''F>more'') (VStr ''>f>Leaf>more'') True = Inr True"
    using key_matches_three_forms [of "''F>more''" "''>f>Leaf>more''" True] h3 c1 s2
    by simp
  have f: "key_matches (VStr ''F>more'') (VStr ''>f>Leaf>more'') False = Inr False"
    using key_matches_three_forms [of "''F>more''" "''>f>Leaf>more''" False] h3 s2
    by simp
  from h1 h2 h3 a b c d e f show ?thesis by blast
qed


subsection \<open>Resolution of the type comparator\<close>

text \<open>
  C4. Let \<open>t\<close> be the table \<open>are_equal\<close> consults (the given one, or the default
  table when none or an empty one is given) and \<open>l\<close>, \<open>r\<close> the types of the two values.
  An entry for the ordered pair \<open>(l, r)\<close> is applied to \<open>(lhs, rhs)\<close>; failing that, an
  entry for the reversed pair \<open>(r, l)\<close> is applied to \<open>(rhs, lhs)\<close>; failing that, a
  single-type entry for \<open>l\<close> is applied to \<open>(lhs, rhs)\<close>, with a warning logged when
  \<open>r\<close> has a different single-type comparator; failing that, a single-type entry for
  \<open>r\<close> is applied to \<open>(rhs, lhs)\<close>.
\<close>

theorem are_equal_resolution_order:
  assumes t: "t = (if not_comparators cs then DEFAULT_TYPE_COMPARATOR fs else the cs)"
    and l: "l = type_of lhs" and r: "r = type_of rhs"
  shows "(\<forall>c. map_of t (PairOf l r) = Some c \<longrightarrow>
            are_equal fs lhs rhs cs =
              ((case map_of t (PairOf r l) of
                  Some c' \<Rightarrow> (if fn c \<noteq> fn c' then [PairComparatorsDiffer l r] else [])
                | None \<Rightarrow> []),
               call c lhs rhs))
       \<and> (\<forall>c. map_of t (PairOf l r) = None \<and> map_of t (PairOf r l) = Some c \<longrightarrow>
            are_equal fs lhs rhs cs = ([], call c rhs lhs))
       \<and> (\<forall>c. map_of t (PairOf l r) = None \<and> map_of t (PairOf r l) = None
              \<and> map_of t (Single l) = Some c \<longrightarrow>
            are_equal fs lhs rhs cs =
              ((case map_of t (Single r) of
                  Some c' \<Rightarrow> (if fn c \<noteq> fn c' then [SingleComparatorsDiffer l r] else [])
                | None \<Rightarrow> []),
               call c lhs rhs))
       \<and> (\<forall>c. map_of t (PairOf l r) = None \<and> map_of t (PairOf r l) = None
              \<and> map_of t (Single l) = None \<and> map_of t (Single r) = Some c \<longrightarrow>
            are_equal fs lhs rhs cs = ([], call c rhs lhs))"
  unfolding t l r by (simp add: are_equal_def Let_def)

theorem are_equal_resolution_order_witness:
  "are_equal no_float_str (VInt 1) (VStr ''a'')
       (Some [(PairOf T_int T_str, first_argument), (PairOf T_str T_int, second_argument),
              (Single T_int, second_argument)])
     = ([PairComparatorsDiffer T_int T_str], Inr (VInt 1))
   \<and> are_equal no_float_str (VInt 1) (VStr ''a'')
       (Some [(PairOf T_str T_int, first_argument), (Single T_int, second_argument)])
     = ([], Inr (VStr ''a''))
   \<and> are_equal no_float_str (VInt 1) (VStr ''a'')
       (Some [(Single T_str, second_argument), (Single T_int, first_argument)])
     = ([SingleComparatorsDiffer T_int T_str], Inr (VInt 1))
   \<and> are_equal no_float_str (VInt 1) (VStr ''a'')
       (Some [(Single T_str, first_argument)])
     = ([], Inr (VStr ''a''))"
proof -
  let ?t1 = "[(PairOf T_int T_str, first_argument), (PairOf T_str T_int, second_argument),
              (Single T_int, second_argument)]"
  let ?t2 = "[(PairOf T_str T_int, first_argument), (Single T_int, second_argument)]"
  let ?t3 = "[(Single T_str, second_argument), (Single T_int, first_argument)]"
  let ?t4 = "[(Single T_str, first_argument)]"
  have a: "are_equal no_float_str (VInt 1) (VStr ''a'') (Some ?t1)
             = ([PairComparatorsDiffer T_int T_str], Inr (VInt 1))"
    using are_equal_resolution_order
            [of ?t1 "Some ?t1" no_float_str T_int "VInt 1" T_str "VStr ''a''"]
    by (simp add: first_argument_def second_argument_def)
  have b: "are_equal no_float_str (VInt 1) (VStr ''a'') (Some ?t2) = ([], Inr (VStr ''a''))"
    using are_equal_resolution_order
            [of ?t2 "Some ?t2" no_float_str T_int "VInt 1" T_str "VStr ''a''"]
    by (simp add: first_argument_def second_argument_def)
  have c: "are_equal no_float_str (VInt 1) (VStr ''a'') (Some ?t3)
             = ([SingleComparatorsDiffer T_int T_str], Inr (VInt 1))"
    using are_equal_resolution_order
            [of ?t3 "Some ?t3" no_float_str T_int "VInt 1" T_str "VStr ''a''"]
    by (simp add: first_argument_def second_argument_def)
  have d: "are_equal no_float_str (VInt 1) (VStr ''a'') (Some ?t4) = ([], Inr (VStr ''a''))"
    using are_equal_resolution_order
            [of ?t4 "Some ?t4" no_float_str T_int "VInt 1" T_str "VStr ''a''"]
    by (simp add: first_argument_def)
  from a b c d show ?thesis by blast
qed


subsection \<open>The engine and its configuration\<close>

lemma DeepDelta_init_Inr:
  assumes "DeepDelta_init fs cfg cs named excl = Inr self"
  shows "config self = (case cfg of None \<Rightarrow> DEFAULT_DELTA_CONFIG
                        | Some c \<Rightarrow> (if c = 0 then DEFAULT_DELTA_CONFIG else c))"
    and "get_output (config self) = Inr (output_of self)"
    and "typed_equal self =
           (\<lambda>lhs rhs. snd (with_comparators fs cs
                               (matches (config self) NoneUnequalDefault None) lhs rhs))"
    and "named_comparators self = (case named of None \<Rightarrow> [] | Some n \<Rightarrow> n)"
    and "keys_excluded self = excl"
  using assms by (auto simp: DeepDelta_init_def Let_def split: sum.splits)



lemma with_comparators_table:
  "with_comparators fs cs b lhs rhs =
     are_equal fs lhs rhs
       (Some (if not_comparators cs then default_copy fs b else the cs))"
  by (cases cs) (auto simp: with_comparators_def Let_def)

lemma get_output_default:
  "get_output DEFAULT_DELTA_CONFIG =
     Inr (\<lambda>is_dif left right.
            no_flag_tuple_abbrev is_dif (get_value_abbrev left) (get_value_abbrev right))"
  by (simp add: get_output_def Output_Buffer_def DEFAULT_DELTA_CONFIG_def DeltaConfig_defs
      matches_def mask_or_flags_def)

lemma default_flags:
  "matches DEFAULT_DELTA_CONFIG KeyCaseIgnored None"
  "matches DEFAULT_DELTA_CONFIG ValueCaseIgnored None"
  "matches DEFAULT_DELTA_CONFIG KeySpaceTrimmed None"
  "matches DEFAULT_DELTA_CONFIG ValueSpaceTrimmed None"
  "matches DEFAULT_DELTA_CONFIG IdAsKey None"
  "matches DEFAULT_DELTA_CONFIG MissingAsNone None"
  "\<not> matches DEFAULT_DELTA_CONFIG NoneUnequalDefault None"
  "\<not> matches DEFAULT_DELTA_CONFIG OutputKeepAllDetails None"
  "\<not> matches DEFAULT_DELTA_CONFIG OutputWithFlag None"
  by (simp_all add: DEFAULT_DELTA_CONFIG_def DeltaConfig_defs matches_def mask_or_flags_def)

lemma get_named_comparator_empty:
  "named_comparators self = [] \<Longrightarrow> get_named_comparator self p = Inr None"
  by (simp add: get_named_comparator_def and_then_def)

lemma DeepDelta_init_default:
  "\<exists>self. DeepDelta_init fs None cs named excl = Inr self"
  by (simp add: DeepDelta_init_def get_output_default)

subsection \<open>Unresolved type comparison\<close>




subsection \<open>Reflexivity\<close>

lemma same_nan_or_eq_refl: "same_nan x x \<or> py_eq x x"
proof (induction x)
  case (VList xs)
  then show ?case by (simp add: list_all2_same)
next
  case (VTuple xs)
  then show ?case by (simp add: list_all2_same)
next
  case (VDict d)
  have "\<And>k v. (k, v) \<in> set d \<Longrightarrow>
          (same_nan k k \<or> py_eq k k) \<and> (same_nan v v \<or> py_eq v v)"
  proof -
    fix k v assume m: "(k, v) \<in> set d"
    have "k \<in> Basic_BNFs.fsts (k, v)" by simp
    moreover have "v \<in> Basic_BNFs.snds (k, v)" by simp
    ultimately show "(same_nan k k \<or> py_eq k k) \<and> (same_nan v v \<or> py_eq v v)"
      using m VDict by blast
  qed
  then show ?case by (fastforce simp: list_all_iff list_ex_iff)
qed simp_all

lemma same_or_eq_refl: "same_or_eq x x"
  by (simp add: same_or_eq_def same_nan_or_eq_refl)

lemma py_eq_refl: "py_eq x x = (\<forall>i. x \<noteq> VNaN i)"
  using same_nan_or_eq_refl [of x] by (cases x) auto

lemma py_eq_same_or_eq: "py_eq x y \<Longrightarrow> same_or_eq x y"
  by (simp add: same_or_eq_def)

lemma py_eq_NaN: "\<not> py_eq x (VNaN i)"
  by (cases x) simp_all

lemma same_or_eq_py_eq: "py_eq x y \<Longrightarrow> same_or_eq z y = py_eq z y"
  by (cases y; cases z; simp add: same_or_eq_def py_eq_NaN)

lemma get_output_default_shape:
  assumes "get_output c = Inr out" and "c AND OutputFormatMask = OutputDefault"
  shows "out (VBool False) x y = VNone"
proof -
  have "map_of Output_Buffer OutputDefault = Some no_flag_tuple_abbrev"
    by (simp add: Output_Buffer_def)
  with assms show ?thesis
    by (auto simp: get_output_def Let_def no_flag_tuple_abbrev_def split: if_splits)
qed

lemma are_equal_NaN:
  "are_equal fs (VNaN i) (VNaN j) (Some (default_copy fs b)) = ([], Inr (VBool False))"
  by (cases b) (simp_all add: are_equal_def Let_def default_copy_def
      DEFAULT_TYPE_COMPARATOR_def is_Collection_type_def)

text \<open>
  C1, as stated, fails for the float \<open>nan\<close>, which is not equal to itself:
  \<open>compare(nan, nan)\<close> with the default configuration finds \<open>nan == nan\<close> false, asks
  the type comparators, which have no entry for \<open>float\<close> and answer \<open>nan == nan\<close>, and
  reports the difference \<open>(nan, nan)\<close>.
\<close>

theorem compare_reflexive_counterexample:
  "compare no_float_str (Suc 0) (VNaN 0) (VNaN 0) None None None []
     = Inr (VTuple [VNaN 0, VNaN 0])"
  by code_simp

text \<open>
  C1 (amended). For every value \<open>x\<close> that is equal to itself under \<open>==\<close>, which is
  every value but \<open>nan\<close>, and every configuration that resolves to a registered
  formatter (the construction of the engine succeeds), with no named comparator
  registered for the root path, \<open>compare(x, x)\<close> returns the formatter applied with the
  difference indicator \<open>False\<close>; under the default output shape that is \<open>None\<close>. This
  holds for any type comparators and excluded keys, at any recursion depth allowed. For
  \<open>nan\<close> and the engine's default type comparators, \<open>compare(nan, nan)\<close> returns the
  formatter applied with the indicator \<open>True\<close>.
\<close>

theorem compare_reflexive:
  assumes init: "DeepDelta_init fs cfg cs named excl = Inr self"
    and named: "get_named_comparator self [] = Inr None"
  shows "(py_eq x x \<longrightarrow>
            compare fs (Suc n) x x cfg cs named excl = Inr (output_of self (VBool False) x x))
       \<and> (py_eq x x \<and> config self AND OutputFormatMask = OutputDefault \<longrightarrow>
            compare fs (Suc n) x x cfg cs named excl = Inr VNone)
       \<and> (py_eq x x \<longleftrightarrow> (\<forall>i. x \<noteq> VNaN i))
       \<and> (not_comparators cs \<longrightarrow>
            compare fs (Suc n) (VNaN i) (VNaN i) cfg cs named excl
              = Inr (output_of self (VBool True) (VNaN i) (VNaN i)))"
proof -
  have a: "compare fs (Suc n) x x cfg cs named excl
             = Inr (output_of self (VBool False) x x)" if "py_eq x x"
    using init named that
    by (simp add: compare_def and_then_def compare_any.simps path_or_empty_def as_delta_def)
  have b: "output_of self (VBool False) x x = VNone"
    if "config self AND OutputFormatMask = OutputDefault"
    using DeepDelta_init_Inr(2) [OF init] that by (rule get_output_default_shape)
  have c: "py_eq x x \<longleftrightarrow> (\<forall>i. x \<noteq> VNaN i)"
    by (rule py_eq_refl)
  have d: "compare fs (Suc n) (VNaN i) (VNaN i) cfg cs named excl
              = Inr (output_of self (VBool True) (VNaN i) (VNaN i))"
    if "not_comparators cs"
  proof -
    have "typed_equal self (VNaN i) (VNaN i) = Inr (VBool False)"
      using DeepDelta_init_Inr(3) [OF init] that
      by (simp add: with_comparators_table are_equal_NaN)
    then show ?thesis
      using init named
      by (simp add: compare_def and_then_def compare_any.simps path_or_empty_def
          as_delta_def Let_def)
  qed
  from a b c d show ?thesis by simp
qed

theorem compare_reflexive_witness:
  "py_eq (VList [VInt 1, VStr ''a'', VNaN 1]) (VList [VInt 1, VStr ''a'', VNaN 1])
   \<and> compare no_float_str (Suc 0) (VList [VInt 1, VStr ''a'', VNaN 1])
       (VList [VInt 1, VStr ''a'', VNaN 1]) None None None [] = Inr VNone
   \<and> \<not> py_eq (VNaN 1) (VNaN 1)
   \<and> compare no_float_str (Suc 0) (VNaN 1) (VNaN 1) None None None []
       = Inr (VTuple [VNaN 1, VNaN 1])"
proof -
  let ?x = "VList [VInt 1, VStr ''a'', VNaN 1]"
  obtain self where init: "DeepDelta_init no_float_str None None None [] = Inr self"
    using DeepDelta_init_default by blast
  note f = DeepDelta_init_Inr [OF init]
  have named: "get_named_comparator self [] = Inr None"
    using f(4) by (simp add: get_named_comparator_empty)
  have cfg: "config self = DEFAULT_DELTA_CONFIG"
    using f(1) by simp
  have shape: "config self AND OutputFormatMask = OutputDefault"
    using f(1) by (simp add: DEFAULT_DELTA_CONFIG_def DeltaConfig_defs)
  have out: "output_of self = (\<lambda>is_dif left right.
            no_flag_tuple_abbrev is_dif (get_value_abbrev left) (get_value_abbrev right))"
    using f(2) by (simp add: cfg get_output_default)
  have eq: "py_eq ?x ?x"
    by simp
  have nc: "not_comparators None"
    by simp
  note t = compare_reflexive [OF init named, of ?x 0 1]
  have a: "compare no_float_str (Suc 0) ?x ?x None None None [] = Inr VNone"
    using t eq shape by blast
  have "compare no_float_str (Suc 0) (VNaN 1) (VNaN 1) None None None []
          = Inr (output_of self (VBool True) (VNaN 1) (VNaN 1))"
    using t nc by blast
  then have b: "compare no_float_str (Suc 0) (VNaN 1) (VNaN 1) None None None []
                  = Inr (VTuple [VNaN 1, VNaN 1])"
    by (simp add: out no_flag_tuple_abbrev_def get_value_abbrev_def)
  from eq a b show ?thesis by simp
qed


subsection \<open>Empty sequences\<close>

lemma set_of_list_hashable:
  "list_all hashable xs \<Longrightarrow> \<exists>ys. set_of_list acc xs = Inr ys"
  by (induction xs arbitrary: acc) auto

lemma guess_keys_empty:
  assumes "e \<in> {VList [], VTuple [], VStr []}"
  shows "guess_keys e is_key ci keys =
           ([], and_then (set_of_list [] keys) (\<lambda>ks. Inr (KeySet ks)))"
  using assms by (auto simp: guess_keys_def)

lemma sequence_to_dict_empty:
  assumes "e \<in> {VList [], VTuple [], VStr []}"
  shows "sequence_to_dict e is_key ci keys =
     ([], case set_of_list [] keys of Inl err \<Rightarrow> Inl err | Inr ks \<Rightarrow> Inl IndexError)"
  using assms
  by (auto simp: sequence_to_dict_def guess_keys_empty and_then_def split: sum.splits)

lemma py_eq_empty:
  assumes "e \<in> {VList [], VTuple [], VStr []}"
  shows "py_eq e y = (y = e)" and "py_eq y e = (y = e)"
  using assms by (cases y; auto)+

lemma compare_any_sequences:
  assumes named: "get_named_comparator self (path_or_empty kp) = Inr None"
    and neq: "\<not> py_eq lhs rhs"
    and nstr: "\<not> (is_str lhs \<and> is_str rhs)"
    and seq: "is_Sequence lhs" "is_Sequence rhs"
  shows "compare_any (Suc n) self lhs rhs kp =
           compare_sequence_with (compare_any n self) self lhs rhs
             (Some (path_or_empty kp)) None []"
proof -
  have s: "(is_str lhs \<and> is_str rhs) = False"
    using nstr by blast
  have m: "(is_Mapping lhs \<and> is_Mapping rhs) = False"
    using seq by (cases lhs) auto
  show ?thesis
    using named neq seq by (simp add: compare_any.simps and_then_def Let_def s m)
qed

lemma compare_sequence_with_root:
  assumes ik: "is_key = (if matches (config self) IdAsKey None then Some key_denoted_by_id
                         else None)"
    and ci: "ci = matches (config self) KeyCaseIgnored None"
  shows "compare_sequence_with rec self lhs rhs sp None [] =
     and_then (snd (guess_keys lhs is_key ci [])) (\<lambda>l_keys.
     and_then (snd (guess_keys rhs is_key ci [])) (\<lambda>r_keys.
     and_then (case l_keys of
                 KeySet l \<Rightarrow> Inr (filter (\<lambda>k. py_in k (keyset_list r_keys)) l)
               | EmptyDict \<Rightarrow> Inl AttributeError) (\<lambda>keys.
     and_then (snd (sequence_to_dict lhs is_key ci keys)) (\<lambda>l_dict.
     and_then (snd (sequence_to_dict rhs is_key ci keys)) (\<lambda>r_dict.
       compare_dict_with rec self l_dict r_dict (path_or_empty sp))))))"
  unfolding ik ci by (simp add: compare_sequence_with_def Let_def)

lemma compare_sequence_with_empty_left:
  assumes e: "e \<in> {VList [], VTuple [], VStr []}"
    and ik: "is_key = (if matches (config self) IdAsKey None then Some key_denoted_by_id
                       else None)"
    and ci: "ci = matches (config self) KeyCaseIgnored None"
  shows "compare_sequence_with rec self e other sp None [] =
           (case snd (guess_keys other is_key ci []) of
              Inl err \<Rightarrow> Inl err
            | Inr g \<Rightarrow> Inl IndexError)"
proof -
  have ge: "snd (guess_keys e is_key ci []) = Inr (KeySet [])"
    by (simp add: guess_keys_empty [OF e] and_then_def)
  have se: "snd (sequence_to_dict e is_key ci []) = Inl IndexError"
    by (simp add: sequence_to_dict_empty [OF e])
  show ?thesis
    unfolding compare_sequence_with_root [OF ik ci]
    by (cases "snd (guess_keys other is_key ci [])") (simp_all add: ge se and_then_def)
qed

lemma compare_sequence_with_empty_right:
  assumes e: "e \<in> {VList [], VTuple [], VStr []}"
    and ik: "is_key = (if matches (config self) IdAsKey None then Some key_denoted_by_id
                       else None)"
    and ci: "ci = matches (config self) KeyCaseIgnored None"
  shows "compare_sequence_with rec self other e sp None [] =
           (case snd (guess_keys other is_key ci []) of
              Inl err \<Rightarrow> Inl err
            | Inr EmptyDict \<Rightarrow> Inl AttributeError
            | Inr (KeySet ks) \<Rightarrow>
                (case snd (sequence_to_dict other is_key ci []) of
                   Inl err \<Rightarrow> Inl err
                 | Inr d \<Rightarrow> Inl IndexError))"
proof -
  have ge: "snd (guess_keys e is_key ci []) = Inr (KeySet [])"
    by (simp add: guess_keys_empty [OF e] and_then_def)
  have se: "snd (sequence_to_dict e is_key ci []) = Inl IndexError"
    by (simp add: sequence_to_dict_empty [OF e])
  show ?thesis
  proof (cases "snd (guess_keys other is_key ci [])")
    case (Inl err)
    then show ?thesis
      unfolding compare_sequence_with_root [OF ik ci] by (simp add: and_then_def)
  next
    case (Inr g)
    show ?thesis
    proof (cases g)
      case EmptyDict
      with Inr show ?thesis
        unfolding compare_sequence_with_root [OF ik ci] by (simp add: ge and_then_def)
    next
      case (KeySet ks)
      with Inr show ?thesis
        unfolding compare_sequence_with_root [OF ik ci]
        by (cases "snd (sequence_to_dict other is_key ci [])")
          (simp_all add: ge se and_then_def py_in_def)
    qed
  qed
qed

text \<open>
  C10, as stated, fails: with the empty sequence on the right and a left sequence whose
  items have several types, \<open>guess_keys\<close> returns the dict \<open>{}\<close> for the left side,
  and \<open>l_keys.intersection\<close> raises \<open>AttributeError\<close> before \<open>sequence_to_dict\<close> is
  reached.
\<close>

theorem empty_sequence_raises_IndexError_counterexample:
  "compare no_float_str (Suc 0) (VList [VInt 1, VStr ''a'']) (VList []) None None None []
     = Inl AttributeError"
  by code_simp

text \<open>Two strings are compared as strings, the empty one included.\<close>

lemma empty_string_compared_as_string:
  "compare no_float_str (Suc 0) (VStr []) (VStr ''a'') None None None []
     = Inr (VTuple [VStr [], VStr ''a''])"
  by code_simp

text \<open>
  C10 (amended). \<open>sequence_to_dict\<close> reads \<open>items[0]\<close> before it looks at the number
  of keys, so on an empty sequence \<open>e\<close> (with hashable explicit keys, if any) it raises
  \<open>IndexError\<close>. Consequently, comparing \<open>e\<close> with a sequence \<open>other\<close> that is not equal
  to it (and not two strings; the items of \<open>other\<close> are not classes; no named
  comparator for the root path) never returns a delta. The keys of both sides are
  guessed first, then the left and the right
  sequence are converted. So \<open>compare(e, other)\<close> raises the error of the key guessing
  on \<open>other\<close> if that fails, and \<open>IndexError\<close> otherwise, as for \<open>[]\<close> against
  \<open>[1]\<close>; and \<open>compare(other, e)\<close> raises the error of the key guessing on \<open>other\<close>
  if that fails, \<open>AttributeError\<close> if the items of \<open>other\<close> have several types, the
  error of the conversion of \<open>other\<close> if that fails, and \<open>IndexError\<close> otherwise.
\<close>

theorem empty_sequence_raises_IndexError:
  assumes e: "e \<in> {VList [], VTuple [], VStr []}"
    and init: "DeepDelta_init fs cfg cs named excl = Inr self"
    and named: "get_named_comparator self [] = Inr None"
    and other: "is_Sequence other" "other \<noteq> e" "\<not> (is_str e \<and> is_str other)"
    and items: "items_of other = Inr items" "\<forall>x\<in>set items. type_of x \<noteq> T_type"
    and ik: "is_key = (if matches (config self) IdAsKey None then Some key_denoted_by_id
                       else None)"
    and ci: "ci = matches (config self) KeyCaseIgnored None"
  shows "(list_all hashable keys \<longrightarrow>
            sequence_to_dict e any_key any_ci keys = ([], Inl IndexError))
       \<and> compare fs (Suc n) e other cfg cs named excl =
           (case snd (guess_keys other is_key ci []) of
              Inl err \<Rightarrow> Inl err
            | Inr g \<Rightarrow> Inl IndexError)
       \<and> compare fs (Suc n) other e cfg cs named excl =
           (case snd (guess_keys other is_key ci []) of
              Inl err \<Rightarrow> Inl err
            | Inr EmptyDict \<Rightarrow> Inl AttributeError
            | Inr (KeySet ks) \<Rightarrow>
                (case snd (sequence_to_dict other is_key ci []) of
                   Inl err \<Rightarrow> Inl err
                 | Inr d \<Rightarrow> Inl IndexError))
       \<and> (\<exists>err. compare fs (Suc n) e other cfg cs named excl = Inl err)
       \<and> (\<exists>err. compare fs (Suc n) other e cfg cs named excl = Inl err)"
proof -
  have seq_e: "is_Sequence e"
    using e by auto
  have named': "get_named_comparator self (path_or_empty None) = Inr None"
    using named by (simp add: path_or_empty_def)
  have neq: "\<not> py_eq e other" "\<not> py_eq other e"
    using other(2) by (simp_all add: py_eq_empty [OF e])
  have l: "compare fs (Suc n) e other cfg cs named excl =
             compare_sequence_with (compare_any n self) self e other
               (Some (path_or_empty None)) None []"
    using compare_any_sequences [OF named' neq(1) other(3) seq_e other(1)]
    by (simp add: compare_def init and_then_def)
  have nstr: "\<not> (is_str other \<and> is_str e)"
    using other(3) by blast
  have r: "compare fs (Suc n) other e cfg cs named excl =
             compare_sequence_with (compare_any n self) self other e
               (Some (path_or_empty None)) None []"
    using compare_any_sequences [OF named' neq(2) nstr other(1) seq_e]
    by (simp add: compare_def init and_then_def)
  have a: "sequence_to_dict e any_key any_ci keys = ([], Inl IndexError)"
    if "list_all hashable keys"
    using set_of_list_hashable [OF that, of "[]"]
    by (auto simp: sequence_to_dict_empty [OF e])
  have b: "compare fs (Suc n) e other cfg cs named excl =
           (case snd (guess_keys other is_key ci []) of
              Inl err \<Rightarrow> Inl err
            | Inr g \<Rightarrow> Inl IndexError)"
    unfolding l using e ik ci by (rule compare_sequence_with_empty_left)
  have c: "compare fs (Suc n) other e cfg cs named excl =
           (case snd (guess_keys other is_key ci []) of
              Inl err \<Rightarrow> Inl err
            | Inr EmptyDict \<Rightarrow> Inl AttributeError
            | Inr (KeySet ks) \<Rightarrow>
                (case snd (sequence_to_dict other is_key ci []) of
                   Inl err \<Rightarrow> Inl err
                 | Inr d \<Rightarrow> Inl IndexError))"
    unfolding r using e ik ci by (rule compare_sequence_with_empty_right)
  have d: "\<exists>err. compare fs (Suc n) e other cfg cs named excl = Inl err"
    unfolding b by (simp split: sum.splits)
  have f: "\<exists>err. compare fs (Suc n) other e cfg cs named excl = Inl err"
    unfolding c by (simp split: sum.splits keyset.splits)
  from a b c d f show ?thesis by blast
qed

theorem empty_sequence_raises_IndexError_witness:
  "sequence_to_dict (VList []) None True [] = ([], Inl IndexError)
   \<and> compare no_float_str (Suc 0) (VList []) (VList [VInt 1]) None None None []
       = Inl IndexError
   \<and> compare no_float_str (Suc 0) (VList [VInt 1]) (VList []) None None None []
       = Inl IndexError
   \<and> compare no_float_str (Suc 0) (VList [])
       (VList [VDict [(VTuple [VInt 1, VInt 2], VStr ''x'')]]) None None None []
       = Inl AttributeError
   \<and> compare no_float_str (Suc 0) (VList [VNone, VInt 1]) (VList []) None None None []
       = Inl AttributeError"
proof -
  let ?t = "VList [VDict [(VTuple [VInt 1, VInt 2], VStr ''x'')]]"
  let ?m = "VList [VNone, VInt 1]"
  obtain self where init: "DeepDelta_init no_float_str None None None [] = Inr self"
    using DeepDelta_init_default by blast
  note f = DeepDelta_init_Inr [OF init]
  have cfg: "config self = DEFAULT_DELTA_CONFIG"
    using f(1) by simp
  have named: "get_named_comparator self [] = Inr None"
    using f(4) by (simp add: get_named_comparator_empty)
  have ik: "Some key_denoted_by_id =
              (if matches (config self) IdAsKey None then Some key_denoted_by_id else None)"
    by (simp add: cfg default_flags)
  have ci: "True = matches (config self) KeyCaseIgnored None"
    by (simp add: cfg default_flags)
  have e: "VList [] \<in> {VList [], VTuple [], VStr []}"
    by simp
  have g1: "snd (guess_keys (VList [VInt 1]) (Some key_denoted_by_id) True [])
              = Inr (KeySet [])"
    by code_simp
  have s1: "snd (sequence_to_dict (VList [VInt 1]) (Some key_denoted_by_id) True [])
              = Inr [(VStr ''0'', VInt 1)]"
    by code_simp
  have g2: "snd (guess_keys ?t (Some key_denoted_by_id) True []) = Inl AttributeError"
    by code_simp
  have g3: "snd (guess_keys ?m (Some key_denoted_by_id) True []) = Inr EmptyDict"
    by code_simp
  note t1 = empty_sequence_raises_IndexError
              [OF e init named _ _ _ _ _ ik ci, of "VList [VInt 1]" "[VInt 1]" "[]" None True 0]
  note t2 = empty_sequence_raises_IndexError
              [OF e init named _ _ _ _ _ ik ci,
               of ?t "[VDict [(VTuple [VInt 1, VInt 2], VStr ''x'')]]" "[]" None True 0]
  note t3 = empty_sequence_raises_IndexError
              [OF e init named _ _ _ _ _ ik ci, of ?m "[VNone, VInt 1]" "[]" None True 0]
  have a: "sequence_to_dict (VList []) None True [] = ([], Inl IndexError)"
    using t1 by simp
  have b: "compare no_float_str (Suc 0) (VList []) (VList [VInt 1]) None None None []
             = Inl IndexError"
    "compare no_float_str (Suc 0) (VList [VInt 1]) (VList []) None None None []
             = Inl IndexError"
    using t1 by (simp_all add: g1 s1)
  have c: "compare no_float_str (Suc 0) (VList []) ?t None None None [] = Inl AttributeError"
    using t2 by (simp add: g2)
  have d: "compare no_float_str (Suc 0) ?m (VList []) None None None [] = Inl AttributeError"
    using t3 by (simp add: g3)
  from a b c d show ?thesis by blast
qed


subsection \<open>Named comparators\<close>

lemma engine_fields:
  "config default_engine = DEFAULT_DELTA_CONFIG"
  "named_comparators default_engine = []"
  "keys_excluded default_engine = []"
  "output_of default_engine = (\<lambda>is_dif left right.
            no_flag_tuple_abbrev is_dif (get_value_abbrev left) (get_value_abbrev right))"
  "config named_root_engine = DEFAULT_DELTA_CONFIG"
  "named_comparators named_root_engine = [(VStr [], always_different)]"
  "keys_excluded named_root_engine = []"
  "output_of named_root_engine = (\<lambda>is_dif left right.
            no_flag_tuple_abbrev is_dif (get_value_abbrev left) (get_value_abbrev right))"
  "config named_k_engine = DEFAULT_DELTA_CONFIG"
  "named_comparators named_k_engine = [(VStr ''k'', always_different)]"
  "keys_excluded named_k_engine = []"
  "output_of named_k_engine = (\<lambda>is_dif left right.
            no_flag_tuple_abbrev is_dif (get_value_abbrev left) (get_value_abbrev right))"
  by (simp_all add: default_engine_def named_root_engine_def named_k_engine_def
      DeepDelta_init_def get_output_default)

text \<open>
  C3, as stated, fails for a key met during dict comparison: with a named comparator
  for \<open>k\<close> that returns \<open>True\<close>, comparing \<open>{'k': 1}\<close> with \<open>{'k': 2}\<close> gives
  \<open>{'k': True}\<close>, the comparator's own result, and not \<open>{'k': (1, 2)}\<close>, which is what
  the formatter makes of the indicator \<open>True\<close>.
\<close>

theorem named_comparator_in_dict_counterexample:
  "compare no_float_str (Suc (Suc 0)) (VDict [(VStr ''k'', VInt 1)])
       (VDict [(VStr ''k'', VInt 2)]) None None (Some [(VStr ''k'', always_different)]) []
     = Inr (VDict [(VStr ''k'', VBool True)])
   \<and> compare no_float_str (Suc (Suc 0)) (VDict [(VStr ''k'', VInt 1)])
       (VDict [(VStr ''k'', VInt 2)]) None None (Some [(VStr ''k'', always_different)]) []
     \<noteq> Inr (VDict [(VStr ''k'', no_flag_tuple_abbrev (VBool True) (VInt 1) (VInt 2))])"
  by code_simp

text \<open>
  C3 (amended). Whenever a named comparator matches the current key path, the engine
  delegates entirely to it. In \<open>compare_any\<close> (the root of a comparison) its result is
  passed through the output formatter, as the difference indicator. For a key met during
  dict comparison, the comparator's result becomes that key's entry of the delta as it
  is, without passing through the formatter, and the recursive comparison is not called.
\<close>

theorem named_comparator_delegation:
  "(get_named_comparator self (path_or_empty kp) = Inr (Some nc) \<longrightarrow>
      compare_any (Suc n) self lhs rhs kp =
        and_then (nc lhs rhs (path_or_empty kp)) (\<lambda>r. Inr (as_delta self r lhs rhs)))
   \<and> (is_excluded self (dict_path @ [PATH_SEPARATOR] @ py_str key) = Inr False
      \<and> snd (matched_keys key l_keys (matches (config self) KeyCaseIgnored None)
                (matches (config self) KeySpaceTrimmed None)) = Inr lks
      \<and> snd (matched_keys key r_keys (matches (config self) KeyCaseIgnored None)
                (matches (config self) KeySpaceTrimmed None)) = Inr rks
      \<and> side_value d1 lks (matches (config self) MissingAsNone None) = Inr l_value
      \<and> side_value d2 rks (matches (config self) MissingAsNone None) = Inr r_value
      \<and> get_named_comparator self (dict_path @ [PATH_SEPARATOR] @ py_str key)
          = Inr (Some nc') \<longrightarrow>
      compare_key rec self d1 d2 l_keys r_keys dict_path key =
        and_then (nc' l_value r_value (dict_path @ [PATH_SEPARATOR] @ py_str key))
          (\<lambda>v. Inr (Some v)))"
  by (simp add: compare_any.simps compare_key_def and_then_def Let_def)


theorem named_comparator_delegation_witness:
  "compare_any (Suc 0) named_root_engine (VInt 1) (VInt 2) None
     = Inr (VTuple [VInt 1, VInt 2])
   \<and> compare_key (compare_any 0 named_k_engine) named_k_engine
       [(VStr ''k'', VInt 1)] [(VStr ''k'', VInt 2)] [VStr ''k''] [VStr ''k''] []
       (VStr ''k'')
     = Inr (Some (VBool True))"
proof -
  have h1: "get_named_comparator named_root_engine (path_or_empty None)
              = Inr (Some always_different)"
    by (simp add: get_named_comparator_def engine_fields default_flags key_matches_def key_matches_str_def PATH_SEPARATOR_def and_then_def path_or_empty_def neg1_def casefold_def)
  have a: "compare_any (Suc 0) named_root_engine (VInt 1) (VInt 2) None
             = Inr (VTuple [VInt 1, VInt 2])"
    using named_comparator_delegation [of named_root_engine None always_different 0 "VInt 1" "VInt 2"] h1
    by (simp add: and_then_def always_different_def as_delta_def engine_fields no_flag_tuple_abbrev_def get_value_abbrev_def)
  have h2: "is_excluded named_k_engine ([] @ [PATH_SEPARATOR] @ py_str (VStr ''k'')) = Inr False"
    by (simp add: is_excluded_def engine_fields and_then_def)
  have h3: "snd (matched_keys (VStr ''k'') [VStr ''k''] (matches (config named_k_engine) KeyCaseIgnored None)
                (matches (config named_k_engine) KeySpaceTrimmed None)) = Inr [VStr ''k'']"
    unfolding engine_fields by code_simp
  have h4: "side_value [(VStr ''k'', VInt 1)] [VStr ''k''] (matches (config named_k_engine) MissingAsNone None) = Inr (VInt 1)"
     "side_value [(VStr ''k'', VInt 2)] [VStr ''k''] (matches (config named_k_engine) MissingAsNone None) = Inr (VInt 2)"
    by (simp_all add: side_value_def neg1_def dict_get_def and_then_def same_or_eq_def)
  have h5: "get_named_comparator named_k_engine ([] @ [PATH_SEPARATOR] @ py_str (VStr ''k''))
              = Inr (Some always_different)"
    by (simp add: get_named_comparator_def engine_fields default_flags key_matches_def key_matches_str_def PATH_SEPARATOR_def and_then_def neg1_def casefold_def)
  have b: "compare_key (compare_any 0 named_k_engine) named_k_engine
       [(VStr ''k'', VInt 1)] [(VStr ''k'', VInt 2)] [VStr ''k''] [VStr ''k''] []
       (VStr ''k'')
     = Inr (Some (VBool True))"
    using named_comparator_delegation [of named_k_engine _ _ _ _ _  "[]" "VStr ''k''" "[VStr ''k'']" "[VStr ''k'']" "[VStr ''k'']" "[VStr ''k'']" "[(VStr ''k'', VInt 1)]" "VInt 1" "[(VStr ''k'', VInt 2)]" "VInt 2" always_different "compare_any 0 named_k_engine"]
      h2 h3 h4 h5
    by (simp add: and_then_def always_different_def)
  from a b show ?thesis by blast
qed


subsection \<open>Equality of hashable values\<close>

lemma same_or_eq_flat: "flat x \<Longrightarrow> same_or_eq x y = (flat y \<and> canon x = canon y)"
  by (cases x; cases y; simp add: same_or_eq_def)

lemma same_or_eq_tuple:
  "same_or_eq (VTuple xs) y = (\<exists>ys. y = VTuple ys \<and> list_all2 same_or_eq xs ys)"
  by (cases y) (simp_all add: same_or_eq_def [abs_def])

lemma same_or_eq_sym_flat:
  assumes "flat x" and "same_or_eq x y"
  shows "same_or_eq y x"
proof -
  have a: "flat y \<and> canon x = canon y"
    using same_or_eq_flat [OF assms(1), of y] assms(2) by blast
  then have "same_or_eq y x = (flat x \<and> canon y = canon x)"
    using same_or_eq_flat [of y x] by blast
  with a assms(1) show ?thesis by simp
qed

lemma same_or_eq_trans_flat:
  assumes "flat x" and "same_or_eq x y" and "same_or_eq y z"
  shows "same_or_eq x z"
proof -
  have a: "flat y \<and> canon x = canon y"
    using same_or_eq_flat [OF assms(1), of y] assms(2) by blast
  then have b: "flat z \<and> canon y = canon z"
    using same_or_eq_flat [of y z] assms(3) by blast
  have "same_or_eq x z = (flat z \<and> canon x = canon z)"
    using same_or_eq_flat [OF assms(1), of z] .
  with a b show ?thesis by simp
qed

lemma same_or_eq_sym: "hashable x \<Longrightarrow> hashable y \<Longrightarrow> same_or_eq x y \<Longrightarrow> same_or_eq y x"
proof (induction x arbitrary: y)
  case (VTuple xs)
  from VTuple.prems(3) obtain ys where y: "y = VTuple ys" and l: "list_all2 same_or_eq xs ys"
    using same_or_eq_tuple by blast
  from VTuple.prems y have hx: "list_all hashable xs" and hy: "list_all hashable ys"
    by auto
  have "list_all2 same_or_eq ys xs"
    unfolding list_all2_conv_all_nth
  proof (intro conjI allI impI)
    show "length ys = length xs"
      using l by (simp add: list_all2_lengthD)
    fix i assume i: "i < length ys"
    then have ix: "i < length xs"
      using l by (simp add: list_all2_lengthD)
    have "same_or_eq (xs ! i) (ys ! i)"
      using l ix by (simp add: list_all2_nthD)
    moreover have "hashable (xs ! i)" "hashable (ys ! i)"
      using hx hy i ix by (simp_all add: list_all_length)
    ultimately show "same_or_eq (ys ! i) (xs ! i)"
      using VTuple.IH [of "xs ! i" "ys ! i"] ix by simp
  qed
  then show ?case by (simp add: y same_or_eq_tuple)
next
  case (VList xs) then show ?case by simp
next
  case (VDict d) then show ?case by simp
qed (rule same_or_eq_sym_flat; simp)+

lemma same_or_eq_trans:
  "hashable x \<Longrightarrow> hashable y \<Longrightarrow> hashable z \<Longrightarrow> same_or_eq x y \<Longrightarrow> same_or_eq y z \<Longrightarrow> same_or_eq x z"
proof (induction x arbitrary: y z)
  case (VTuple xs)
  from VTuple.prems(4) obtain ys where y: "y = VTuple ys" and l1: "list_all2 same_or_eq xs ys"
    using same_or_eq_tuple by blast
  from VTuple.prems(5) y obtain zs where z: "z = VTuple zs" and l2: "list_all2 same_or_eq ys zs"
    using same_or_eq_tuple by blast
  from y z VTuple.prems
  have h: "list_all hashable xs" "list_all hashable ys" "list_all hashable zs"
    by auto
  have len: "length xs = length ys" "length ys = length zs"
    using l1 l2 by (simp_all add: list_all2_lengthD)
  have "list_all2 same_or_eq xs zs"
    unfolding list_all2_conv_all_nth
  proof (intro conjI allI impI)
    show "length xs = length zs"
      using len by simp
    fix i assume i: "i < length xs"
    have "same_or_eq (xs ! i) (ys ! i)" "same_or_eq (ys ! i) (zs ! i)"
      using l1 l2 i len by (simp_all add: list_all2_nthD)
    moreover have "hashable (xs ! i)" "hashable (ys ! i)" "hashable (zs ! i)"
      using h i len by (simp_all add: list_all_length)
    ultimately show "same_or_eq (xs ! i) (zs ! i)"
      using VTuple.IH [of "xs ! i" "ys ! i" "zs ! i"] i by simp
  qed
  then show ?case by (simp add: z same_or_eq_tuple)
next
  case (VList xs) then show ?case by simp
next
  case (VDict d) then show ?case by simp
qed (rule same_or_eq_trans_flat; simp)+


subsection \<open>Sorting keys\<close>

lemma str_lt_less: "str_lt a b = (a < b)"
  by (induction a b rule: str_lt.induct) (auto simp: less_char_def)

lemma py_lt_str: "py_lt (VStr a) (VStr b) = Inr (a < b)"
  by (simp add: py_lt.simps str_lt_less)

lemma insort_min: "\<forall>z\<in>set ys. x \<le> z \<Longrightarrow> insort x ys = x # (ys :: string list)"
  by (cases ys) auto

lemma insort_lt_strs:
  "sorted ys \<Longrightarrow> insort_lt (VStr x) (map VStr ys) = Inr (map VStr (insort x ys))"
proof (induction ys)
  case Nil
  then show ?case by simp
next
  case (Cons y ys)
  show ?case
  proof (cases "x < y")
    case True
    then have "x \<le> y" by (rule less_imp_le)
    with True show ?thesis by (simp add: py_lt_str)
  next
    case False
    show ?thesis
    proof (cases "x = y")
      case True
      then have "insort x ys = x # ys"
        using Cons.prems by (intro insort_min) auto
      then show ?thesis using Cons True by (simp add: py_lt_str)
    next
      case ne: False
      with False have "\<not> x \<le> y" by auto
      then show ?thesis using Cons False by (simp add: py_lt_str)
    qed
  qed
qed

lemma py_sort_strs: "py_sort (map VStr xs) = Inr (map VStr (sort xs))"
proof (induction xs)
  case Nil
  then show ?case by simp
next
  case (Cons x xs)
  then show ?case by (simp add: insort_lt_strs)
qed

lemma is_str_py_str: "is_str k \<Longrightarrow> VStr (py_str k) = k"
  by (cases k) auto

lemma py_sort_str_keys:
  assumes "\<forall>k\<in>set ks. is_str k"
  shows "py_sort ks = Inr (map VStr (sort (map py_str ks)))"
proof -
  have "map VStr (map py_str ks) = ks"
    using assms by (induction ks) (auto simp: is_str_py_str)
  then show ?thesis using py_sort_strs [of "map py_str ks"] by simp
qed


lemma py_lt_int_keys:
  "is_int_key x \<Longrightarrow> is_int_key y \<Longrightarrow> py_lt x y = Inr (key_number x < key_number y)"
  by (cases x; cases y; simp add: py_lt.simps)

lemma insort_lt_int_keys:
  assumes "is_int_key x" and "list_all is_int_key ys"
    and "key_number x \<notin> key_number ` set ys"
  shows "insort_lt x ys = Inr (insort_key key_number x ys)"
  using assms(2,3)
proof (induction ys)
  case Nil
  then show ?case by simp
next
  case (Cons y ys)
  from Cons.prems have y: "is_int_key y" and ne: "key_number x \<noteq> key_number y"
    by auto
  from Cons.prems have "insort_lt x ys = Inr (insort_key key_number x ys)"
    by (intro Cons.IH) auto
  then show ?case
    using ne by (auto simp: py_lt_int_keys [OF assms(1) y])
qed

lemma py_sort_int_keys:
  "list_all is_int_key xs \<Longrightarrow> distinct (map key_number xs) \<Longrightarrow>
     py_sort xs = Inr (sort_key key_number xs)"
proof (induction xs)
  case Nil
  then show ?case by simp
next
  case (Cons x xs)
  from Cons.prems have x: "is_int_key x" and xs: "list_all is_int_key xs"
    and d: "distinct (map key_number xs)" and n: "key_number x \<notin> key_number ` set xs"
    by auto
  have s: "py_sort xs = Inr (sort_key key_number xs)"
    using xs d by (rule Cons.IH)
  have "list_all is_int_key (sort_key key_number xs)"
    using xs by (simp add: list_all_iff)
  moreover have "key_number x \<notin> key_number ` set (sort_key key_number xs)"
    using n by simp
  ultimately have "insort_lt x (sort_key key_number xs)
                     = Inr (insort_key key_number x (sort_key key_number xs))"
    by (rule insort_lt_int_keys [OF x])
  then show ?case
    using s by simp
qed


subsection \<open>Dict comprehensions\<close>

lemma dict_get_Cons:
  "hashable k \<Longrightarrow> dict_get ((k', v') # d) k = (if same_or_eq k' k then Inr v' else dict_get d k)"
  by (simp add: dict_get_def)

lemma dict_get_store:
  assumes "hashable k" and "hashable k1" and "list_all (\<lambda>(k, v). hashable k) d"
  shows "dict_get (dict_store d k1 v1) k = (if same_or_eq k1 k then Inr v1 else dict_get d k)"
  using assms(3)
proof (induction d)
  case Nil
  then show ?case using assms(1) by (simp add: dict_get_def)
next
  case (Cons p d)
  obtain k' v' where p: "p = (k', v')" by (cases p)
  from Cons.prems p have hk': "hashable k'" and hd: "list_all (\<lambda>(k, v). hashable k) d"
    by simp_all
  show ?case
  proof (cases "same_or_eq k' k1")
    case True
    have "same_or_eq k' k = same_or_eq k1 k"
    proof
      assume "same_or_eq k' k"
      moreover have "same_or_eq k1 k'"
        using same_or_eq_sym [of k' k1] True hk' assms(2) by blast
      ultimately show "same_or_eq k1 k"
        using same_or_eq_trans [of k1 k' k] assms hk' by blast
    next
      assume "same_or_eq k1 k"
      then show "same_or_eq k' k"
        using same_or_eq_trans [of k' k1 k] True assms hk' by blast
    qed
    then show ?thesis
      using True assms(1) by (simp add: p dict_get_Cons)
  next
    case False
    have "\<not> same_or_eq k1 k" if "same_or_eq k' k"
    proof
      assume a: "same_or_eq k1 k"
      have "same_or_eq k k1"
        using same_or_eq_sym [of k1 k] a assms(1,2) by blast
      then have "same_or_eq k' k1"
        using same_or_eq_trans [of k' k k1] that assms hk' by blast
      with False show False by simp
    qed
    then show ?thesis
      using False assms(1) Cons.IH [OF hd] by (auto simp add: p dict_get_Cons)
  qed
qed

lemma dict_store_hashable:
  "hashable k1 \<Longrightarrow> list_all (\<lambda>(k, v). hashable k) d \<Longrightarrow>
     list_all (\<lambda>(k, v). hashable k) (dict_store d k1 v1)"
  by (induction d) auto

lemma find_append_first:
  "find P (xs @ ys) = (case find P xs of Some x \<Rightarrow> Some x | None \<Rightarrow> find P ys)"
  by (induction xs) auto

lemma last_write_Cons:
  "last_write (kv # kvs) k =
     (case last_write kvs k of
        Some v \<Rightarrow> Some v
      | None \<Rightarrow> (if same_or_eq (fst kv) k then Some (snd kv) else None))"
  by (cases kv) (auto simp: last_write_def find_append_first split: option.splits)

lemma dict_comp_get:
  assumes "dict_comp f xs d0 = Inr d" and "list_all (\<lambda>(k, v). hashable k) d0"
    and "hashable k"
  shows "\<exists>kvs. map_err f xs = Inr kvs
           \<and> dict_get d k = (case last_write kvs k of Some v \<Rightarrow> Inr v | None \<Rightarrow> dict_get d0 k)"
  using assms(1,2)
proof (induction xs arbitrary: d0)
  case Nil
  then show ?case by (simp add: last_write_def)
next
  case (Cons x xs)
  from Cons.prems(1) obtain k1 v1 where fx: "f x = Inr (k1, v1)"
    by (auto split: sum.splits)
  with Cons.prems(1) have hk1: "hashable k1"
    and rest: "dict_comp f xs (dict_store d0 k1 v1) = Inr d"
    by (auto simp: dict_set_def split: sum.splits if_splits)
  have h1: "list_all (\<lambda>(k, v). hashable k) (dict_store d0 k1 v1)"
    using hk1 Cons.prems(2) by (rule dict_store_hashable)
  from Cons.IH [OF rest h1] obtain kvs where kvs: "map_err f xs = Inr kvs"
    and g: "dict_get d k = (case last_write kvs k of Some v \<Rightarrow> Inr v
                            | None \<Rightarrow> dict_get (dict_store d0 k1 v1) k)"
    by blast
  have "map_err f (x # xs) = Inr ((k1, v1) # kvs)"
    using fx kvs by simp
  moreover have "dict_get d k = (case last_write ((k1, v1) # kvs) k of Some v \<Rightarrow> Inr v
                                 | None \<Rightarrow> dict_get d0 k)"
    using g dict_get_store [OF assms(3) hk1 Cons.prems(2), of v1]
    by (simp add: last_write_Cons split: option.splits)
  ultimately show ?case by blast
qed

lemma dict_comp_cong:
  "(\<And>x. x \<in> set xs \<Longrightarrow> f x = g x) \<Longrightarrow> dict_comp f xs d = dict_comp g xs d"
  by (induction xs arbitrary: d) (auto split: sum.splits)

lemma dict_comp_enumerate:
  "dict_comp (\<lambda>(i, item). g item) (enumerate m items) d = dict_comp g items d"
  by (induction items arbitrary: m d) (auto split: sum.splits)

lemma dict_comp_map: "dict_comp f (map g xs) d = dict_comp (\<lambda>x. f (g x)) xs d"
  by (induction xs arbitrary: d) (auto split: sum.splits)

lemma dict_comp_positional:
  "dict_comp Inr (zip (map h [0..<length items]) items) d =
     dict_comp (\<lambda>(i, item). Inr (h i, item)) (enumerate 0 items) d"
proof -
  have "zip (map h [0..<length items]) items =
          map (\<lambda>(i, item). (h i, item)) (enumerate 0 items)"
    by (simp add: enumerate_eq_zip zip_map1)
  then show ?thesis
    by (simp add: dict_comp_map case_prod_unfold)
qed

lemma items_nonempty_truthy: "items_of seq = Inr items \<Longrightarrow> items \<noteq> [] \<Longrightarrow> py_truthy seq"
  by (cases seq) auto

lemma remdups_single:
  assumes "length (remdups xs) = 1" and "x \<in> set xs"
  shows "x = hd xs"
proof -
  from assms(1) obtain y where y: "remdups xs = [y]"
    by (cases "remdups xs") auto
  have "set xs = set (remdups xs)"
    by simp
  also have "\<dots> = {y}"
    unfolding y by simp
  finally have "set xs = {y}" .
  moreover from assms(2) have "xs \<noteq> []" by auto
  then have "hd xs \<in> set xs" by simp
  ultimately show ?thesis using assms(2) by auto
qed


subsection \<open>Key guessing\<close>

lemma guess_keys_EmptyDict:
  assumes "py_truthy seq" and "items_of seq = Inr items"
    and "length (remdups (map type_of items)) \<noteq> 1"
  shows "guess_keys seq is_key ci keys = ([], Inr EmptyDict)"
  unfolding guess_keys_def using assms
  by (simp only: if_True if_False sum.case simp_thms)

lemma guess_keys_same_type:
  assumes g: "guess_keys seq is_key ci keys = (w, Inr g)"
    and it: "items_of seq = Inr items" and ne: "items \<noteq> []"
    and ks: "keyset_list g \<noteq> []"
  shows "\<forall>x\<in>set items. type_of x = type_of (hd items)"
proof -
  have t: "py_truthy seq"
    using it ne by (rule items_nonempty_truthy)
  have one: "length (remdups (map type_of items)) = 1"
  proof (rule ccontr)
    assume "length (remdups (map type_of items)) \<noteq> 1"
    then have "guess_keys seq is_key ci keys = ([], Inr EmptyDict)"
      by (rule guess_keys_EmptyDict [OF t it])
    with g have "g = EmptyDict" by simp
    with ks show False by simp
  qed
  show ?thesis
  proof
    fix x assume "x \<in> set items"
    then have "type_of x \<in> set (map type_of items)" by simp
    then have "type_of x = hd (map type_of items)"
      using one by (rule remdups_single [rotated])
    then show "type_of x = type_of (hd items)"
      using ne by (simp add: hd_map)
  qed
qed


text \<open>The keys that \<open>guess_keys\<close> returns are a set: no two of them are equal.\<close>

lemma same_or_eq_int_keys:
  "is_int_key x \<Longrightarrow> is_int_key y \<Longrightarrow> same_or_eq x y = (key_number x = key_number y)"
  by (cases x; cases y; simp add: same_or_eq_def)

lemma distinct_keys_snoc:
  "distinct_keys (acc @ [x]) = (distinct_keys acc \<and> \<not> py_in x acc)"
  by (induction acc) (auto simp: py_in_def list_ex_iff)

lemma set_of_list_distinct:
  "set_of_list acc xs = Inr ys \<Longrightarrow> distinct_keys acc \<Longrightarrow> distinct_keys ys"
proof (induction xs arbitrary: acc)
  case Nil
  then show ?case by simp
next
  case (Cons x xs)
  let ?acc = "if py_in x acc then acc else acc @ [x]"
  from Cons.prems(1) have r: "set_of_list ?acc xs = Inr ys"
    by (simp split: if_splits)
  have "distinct_keys ?acc"
    using Cons.prems(2) by (simp add: distinct_keys_snoc)
  with r show ?case by (rule Cons.IH)
qed

lemma get_matched_keys_distinct:
  assumes "get_matched_keys cands is_key ci keys = (w, Inr ks)"
  shows "distinct_keys ks"
proof -
  from assms have "ks = [] \<or> (\<exists>xs. set_of_list [] xs = Inr ks)"
    by (auto simp: get_matched_keys_def and_then_def
        split: if_splits prod.splits sum.splits option.splits)
  then show ?thesis
    using set_of_list_distinct [of "[]"] by auto
qed

lemma guess_keys_distinct:
  assumes g: "guess_keys seq is_key ci keys = (w, Inr g)"
  shows "distinct_keys (keyset_list g)"
proof -
  from g have "keyset_list g = [] \<or> (\<exists>xs. set_of_list [] xs = Inr (keyset_list g))
                 \<or> (\<exists>c i k w. get_matched_keys c i ci k = (w, Inr (keyset_list g)))"
    unfolding guess_keys_def Let_def
    by (auto simp: and_then_def split: if_splits prod.splits sum.splits)
  then show ?thesis
  proof (elim disjE exE)
    assume "keyset_list g = []"
    then show ?thesis by simp
  next
    fix xs assume "set_of_list [] xs = Inr (keyset_list g)"
    then show ?thesis by (rule set_of_list_distinct) simp
  next
    fix c i k w assume "get_matched_keys c i ci k = (w, Inr (keyset_list g))"
    then show ?thesis by (rule get_matched_keys_distinct)
  qed
qed

lemma int_keys_distinct:
  "list_all is_int_key ks \<Longrightarrow> distinct_keys ks \<Longrightarrow> distinct (map key_number ks)"
  by (induction ks) (auto simp: list_ex_iff list_all_iff same_or_eq_int_keys)

lemma py_sort_sorted_keys:
  assumes "list_all is_str ks \<or> list_all is_int_key ks"
    and "distinct_keys ks"
  shows "py_sort ks = Inr (sorted_keys ks)"
proof (cases "list_all is_str ks")
  case True
  then show ?thesis
    by (simp add: sorted_keys_def py_sort_str_keys list_all_iff)
next
  case False
  with assms(1) have i: "list_all is_int_key ks" by simp
  then have "distinct (map key_number ks)"
    using assms(2) by (rule int_keys_distinct)
  with i False show ?thesis
    by (simp add: sorted_keys_def py_sort_int_keys)
qed


subsection \<open>The index built by sequence\_to\_dict\<close>

lemma attr_get_obj:
  "attr_get (VObj a c f) k =
     (if \<not> hashable k then Inl TypeError
      else case k of
             VStr n \<Rightarrow> (case map_of f n of Some v \<Rightarrow> Inr v | None \<Rightarrow> Inl KeyError)
           | _ \<Rightarrow> Inl KeyError)"
proof -
  have str: "find (\<lambda>(k', v). same_or_eq k' (VStr n)) (obj_dict f) =
               map_option (\<lambda>v. (VStr n, v)) (map_of f n)" for n
    by (induction f) (auto simp: obj_dict_def same_or_eq_def)
  have other: "find (\<lambda>(k', v). same_or_eq k' k) (obj_dict f) = None" if "\<not> is_str k"
    for k
    using that by (induction f) (auto simp: obj_dict_def same_or_eq_def split: pyval.splits)
  show ?thesis
  proof (cases k)
    case (VStr n)
    then show ?thesis
      by (simp add: attr_get_def and_then_def dict_get_def str split: option.splits)
  qed (simp_all add: attr_get_def and_then_def dict_get_def other)
qed

lemma type_dict: "type_of x = T_dict \<Longrightarrow> \<exists>d. x = VDict d"
  by (cases x) simp_all

lemma spec_entry_no_position:
  "ks \<noteq> [] \<Longrightarrow> spec_entry ks (i, item) = spec_entry ks (0, item)"
  by (cases ks; cases "tl ks") (simp_all add: spec_entry_def spec_index_def)

lemma spec_entry_dict:
  assumes "ks \<noteq> []"
  shows "spec_entry ks (i, VDict d) =
           and_then (spec_index ks i (VDict d)) (\<lambda>k. Inr (k, VDict d))"
  using assms by (simp add: spec_entry_def)

lemma spec_entry_other:
  assumes "ks \<noteq> []" and "type_of item \<noteq> T_dict"
  shows "spec_entry ks (i, item) =
           and_then (spec_index ks i item)
             (\<lambda>k. and_then (attr_dict item) (\<lambda>d. Inr (k, VDict d)))"
  using assms by (cases item) (simp_all add: spec_entry_def obj_dict_def and_then_def
      split: sum.splits)

lemma field_value_dict: "field_value (VDict d) k = item_get (VDict d) k"
  by (simp add: field_value_def item_get_def)

lemma field_value_other: "type_of item \<noteq> T_dict \<Longrightarrow> field_value item k = attr_get item k"
  by (cases item) (simp_all add: field_value_def attr_get_obj, simp_all add: attr_get_def and_then_def)

lemma map_err_cong: "(\<And>x. x \<in> set xs \<Longrightarrow> f x = g x) \<Longrightarrow> map_err f xs = map_err g xs"
  by (induction xs) (auto split: sum.splits)

lemma sequence_to_dict_body:
  assumes it: "items_of seq = Inr items" and ne: "items \<noteq> []"
    and g: "guess_keys seq is_key ci keys = (w, Inr g)"
  shows "sequence_to_dict seq is_key ci keys =
     (w, let keys = keyset_list g; item_type = type_of (hd items) in
                   if length keys = 0 then
                     dict_comp Inr (zip (range_strs (length items)) items) []
                   else if length keys = 1 then
                     (if item_type = T_dict then
                        dict_comp (\<lambda>item. and_then (item_get item (hd keys))
                                            (\<lambda>i. Inr (i, item))) items []
                      else
                        dict_comp (\<lambda>item. and_then (attr_get item (hd keys))
                                    (\<lambda>i. and_then (attr_dict item)
                                      (\<lambda>d. Inr (i, VDict d)))) items [])
                   else
                     (case py_sort keys of
                        Inl e \<Rightarrow> Inl e
                      | Inr keys \<Rightarrow>
                          (if item_type = T_dict then
                             dict_comp (\<lambda>item. and_then (map_err (item_get item) keys)
                                                 (\<lambda>is. Inr (VTuple is, item))) items []
                           else
                             dict_comp (\<lambda>item. and_then (map_err (attr_get item) keys)
                                         (\<lambda>is. and_then (attr_dict item)
                                           (\<lambda>d. Inr (VTuple is, VDict d)))) items [])))"
  unfolding sequence_to_dict_def g it Let_def using ne
  by (simp only: prod.case sum.case if_False)

lemma sequence_to_dict_spec:
  assumes it: "items_of seq = Inr items" and ne: "items \<noteq> []"
    and g: "guess_keys seq is_key ci keys = (w, Inr g)"
    and ks: "ks = keyset_list g"
    and kt: "2 \<le> length ks \<longrightarrow> list_all is_str ks \<or> list_all is_int_key ks"
  shows "sequence_to_dict seq is_key ci keys =
           (w, dict_comp (spec_entry ks) (enumerate 0 items) [])"
proof (cases "ks = []")
  case True
  have "dict_comp Inr (zip (range_strs (length items)) items) [] =
          dict_comp (spec_entry []) (enumerate 0 items) []"
    unfolding range_strs_def dict_comp_positional
    by (simp add: spec_entry_def spec_index_def and_then_def)
  then show ?thesis
    using True ks by (simp add: sequence_to_dict_body [OF it ne g] Let_def)
next
  case False
  then have same: "\<forall>x\<in>set items. type_of x = type_of (hd items)"
    using guess_keys_same_type [OF g it ne] ks by simp
  have pos: "dict_comp (spec_entry ks) (enumerate 0 items) [] =
               dict_comp (\<lambda>item. spec_entry ks (0, item)) items []"
  proof -
    have "spec_entry ks = (\<lambda>(i, item). spec_entry ks (0, item))"
      using spec_entry_no_position [OF False] by (auto simp: fun_eq_iff)
    then have "dict_comp (spec_entry ks) (enumerate 0 items) [] =
                 dict_comp (\<lambda>(i, item). spec_entry ks (0, item)) (enumerate 0 items) []"
      by simp
    then show ?thesis by (simp only: dict_comp_enumerate)
  qed
  show ?thesis
  proof (cases "length ks = 1")
    case True
    then obtain k where k: "ks = [k]"
      by (cases ks) auto
    let ?l = "\<lambda>item. and_then (item_get item k) (\<lambda>i. Inr (i, item))"
    let ?r = "\<lambda>item. and_then (attr_get item k)
                       (\<lambda>i. and_then (attr_dict item) (\<lambda>d. Inr (i, VDict d)))"
    have "dict_comp (\<lambda>item. spec_entry [k] (0, item)) items [] =
            (if type_of (hd items) = T_dict then
               dict_comp (\<lambda>item. and_then (item_get item k) (\<lambda>i. Inr (i, item))) items []
             else
               dict_comp (\<lambda>item. and_then (attr_get item k)
                                    (\<lambda>i. and_then (attr_dict item)
                                      (\<lambda>d. Inr (i, VDict d)))) items [])"
    proof (cases "type_of (hd items) = T_dict")
      case True
      have "spec_entry [k] (0, item) = and_then (item_get item k) (\<lambda>i. Inr (i, item))"
        if "item \<in> set items" for item
      proof -
        from that same True obtain d where "item = VDict d"
          using type_dict by auto
        then show ?thesis
          by (simp add: spec_entry_dict spec_index_def field_value_dict)
      qed
      then have "dict_comp (\<lambda>item. spec_entry [k] (0, item)) items [] =
                   dict_comp ?l items []"
        by (rule dict_comp_cong)
      then show ?thesis
        using True by simp
    next
      case False
      have "spec_entry [k] (0, item) =
              and_then (attr_get item k)
                (\<lambda>i. and_then (attr_dict item) (\<lambda>d. Inr (i, VDict d)))"
        if "item \<in> set items" for item
      proof -
        from that same False have "type_of item \<noteq> T_dict" by auto
        then show ?thesis
          by (simp add: spec_entry_other spec_index_def field_value_other)
      qed
      then have "dict_comp (\<lambda>item. spec_entry [k] (0, item)) items [] =
                   dict_comp ?r items []"
        by (rule dict_comp_cong)
      then show ?thesis
        using False by simp
    qed
    then show ?thesis
      using k ks pos by (simp add: sequence_to_dict_body [OF it ne g] Let_def)
  next
    case many: False
    with False have two: "2 \<le> length ks"
      by (cases ks; cases "tl ks") auto
    then have "list_all is_str ks \<or> list_all is_int_key ks"
      using kt by simp
    then have sorted: "py_sort ks = Inr (sorted_keys ks)"
      using guess_keys_distinct [OF g] unfolding ks by (rule py_sort_sorted_keys)
    let ?sks = "sorted_keys ks"
    have idx: "spec_index ks i item =
                 and_then (map_err (field_value item) ?sks) (\<lambda>vs. Inr (VTuple vs))"
      for i item
      using two by (cases ks; cases "tl ks") (auto simp: spec_index_def)
    let ?l = "\<lambda>item. and_then (map_err (item_get item) ?sks)
                       (\<lambda>is. Inr (VTuple is, item))"
    let ?r = "\<lambda>item. and_then (map_err (attr_get item) ?sks)
                       (\<lambda>is. and_then (attr_dict item) (\<lambda>d. Inr (VTuple is, VDict d)))"
    have "dict_comp (\<lambda>item. spec_entry ks (0, item)) items [] =
            (if type_of (hd items) = T_dict then
               dict_comp (\<lambda>item. and_then (map_err (item_get item) ?sks)
                                    (\<lambda>is. Inr (VTuple is, item))) items []
             else
               dict_comp (\<lambda>item. and_then (map_err (attr_get item) ?sks)
                                    (\<lambda>is. and_then (attr_dict item)
                                      (\<lambda>d. Inr (VTuple is, VDict d)))) items [])"
    proof (cases "type_of (hd items) = T_dict")
      case True
      have "spec_entry ks (0, item) =
              and_then (map_err (item_get item) ?sks) (\<lambda>is. Inr (VTuple is, item))"
        if "item \<in> set items" for item
      proof -
        from that same True obtain d where d: "item = VDict d"
          using type_dict by auto
        have "map_err (field_value item) ?sks = map_err (item_get item) ?sks"
          by (rule map_err_cong) (simp add: d field_value_dict)
        then show ?thesis
          using False by (simp add: d spec_entry_dict idx and_then_def split: sum.splits)
      qed
      then have "dict_comp (\<lambda>item. spec_entry ks (0, item)) items [] =
                   dict_comp ?l items []"
        by (rule dict_comp_cong)
      then show ?thesis
        using True by simp
    next
      case nd: False
      have "spec_entry ks (0, item) =
              and_then (map_err (attr_get item) ?sks)
                (\<lambda>is. and_then (attr_dict item) (\<lambda>d. Inr (VTuple is, VDict d)))"
        if "item \<in> set items" for item
      proof -
        from that same nd have t: "type_of item \<noteq> T_dict" by auto
        have "map_err (field_value item) ?sks = map_err (attr_get item) ?sks"
          by (rule map_err_cong) (simp add: field_value_other [OF t])
        then show ?thesis
          using False
          by (simp add: spec_entry_other [OF False t] idx and_then_def split: sum.splits)
      qed
      then have "dict_comp (\<lambda>item. spec_entry ks (0, item)) items [] =
                   dict_comp ?r items []"
        by (rule dict_comp_cong)
      then show ?thesis
        using nd by simp
    qed
    then show ?thesis
      using many False ks pos sorted
      by (simp add: sequence_to_dict_body [OF it ne g] Let_def)
  qed
qed

lemma map_err_nth:
  "map_err f xs = Inr ys \<Longrightarrow>
     length ys = length xs \<and> (\<forall>m<length xs. f (xs ! m) = Inr (ys ! m))"
proof (induction xs arbitrary: ys)
  case Nil
  then show ?case by simp
next
  case (Cons x xs)
  from Cons.prems obtain y ys' where y: "f x = Inr y" and r: "map_err f xs = Inr ys'"
    and e: "ys = y # ys'"
    by (auto split: sum.splits)
  from Cons.IH [OF r] y e show ?case
    by (auto simp: nth_Cons split: nat.splits)
qed

lemma dict_comp_hashable:
  "dict_comp f xs d0 = Inr d \<Longrightarrow> x \<in> set xs \<Longrightarrow> f x = Inr (k, v) \<Longrightarrow> hashable k"
  by (induction xs arbitrary: d0) (auto simp: dict_set_def split: sum.splits if_splits)

lemma last_write_None:
  "(\<forall>m<length kvs. \<not> same_or_eq (fst (kvs ! m)) k) \<Longrightarrow> last_write kvs k = None"
proof (induction kvs)
  case Nil
  then show ?case by (simp add: last_write_def)
next
  case (Cons kv kvs)
  have "\<forall>m<length kvs. \<not> same_or_eq (fst (kvs ! m)) k"
    using Cons.prems by auto
  moreover have "\<not> same_or_eq (fst kv) k"
    using Cons.prems by auto
  ultimately show ?case
    using Cons.IH by (simp add: last_write_Cons)
qed

lemma last_write_nth:
  "j < length kvs \<Longrightarrow> same_or_eq (fst (kvs ! j)) k \<Longrightarrow>
   (\<forall>m. j < m \<and> m < length kvs \<longrightarrow> \<not> same_or_eq (fst (kvs ! m)) k) \<Longrightarrow>
   last_write kvs k = Some (snd (kvs ! j))"
proof (induction kvs arbitrary: j)
  case Nil
  then show ?case by simp
next
  case (Cons kv kvs)
  show ?case
  proof (cases j)
    case 0
    have "\<forall>m<length kvs. \<not> same_or_eq (fst (kvs ! m)) k"
    proof (intro allI impI)
      fix m assume "m < length kvs"
      then have "0 < Suc m \<and> Suc m < length (kv # kvs)" by simp
      then have "\<not> same_or_eq (fst ((kv # kvs) ! Suc m)) k"
        using Cons.prems(3) 0 by blast
      then show "\<not> same_or_eq (fst (kvs ! m)) k" by simp
    qed
    then have "last_write kvs k = None"
      by (rule last_write_None)
    then show ?thesis
      using Cons.prems(2) 0 by (simp add: last_write_Cons)
  next
    case (Suc j')
    have a: "j' < length kvs" "same_or_eq (fst (kvs ! j')) k"
      using Cons.prems(1,2) Suc by simp_all
    have b: "\<forall>m. j' < m \<and> m < length kvs \<longrightarrow> \<not> same_or_eq (fst (kvs ! m)) k"
    proof (intro allI impI)
      fix m assume "j' < m \<and> m < length kvs"
      then have "j < Suc m \<and> Suc m < length (kv # kvs)"
        using Suc by simp
      then have "\<not> same_or_eq (fst ((kv # kvs) ! Suc m)) k"
        using Cons.prems(3) by blast
      then show "\<not> same_or_eq (fst (kvs ! m)) k" by simp
    qed
    have "last_write kvs k = Some (snd (kvs ! j'))"
      using a b by (rule Cons.IH)
    then show ?thesis
      using Suc by (simp add: last_write_Cons)
  qed
qed

lemma dict_get_empty: "hashable k \<Longrightarrow> dict_get [] k = Inl KeyError"
  by (simp add: dict_get_def)

lemma sequence_to_dict_log:
  "fst (sequence_to_dict seq is_key ci keys) = fst (guess_keys seq is_key ci keys)"
  by (cases "guess_keys seq is_key ci keys"; cases "snd (guess_keys seq is_key ci keys)")
     (simp_all add: sequence_to_dict_def)

lemma sorted_keys_set: "set (sorted_keys ks) = set ks"
proof (cases "list_all is_str ks")
  case True
  then have "map VStr (map py_str ks) = ks"
    by (induction ks) (auto simp: is_str_py_str)
  then have "VStr ` py_str ` set ks = set ks"
    by (metis image_set)
  with True show ?thesis
    by (simp add: sorted_keys_def image_image)
next
  case False
  then show ?thesis by (simp add: sorted_keys_def)
qed

lemma sorted_keys_strs: "list_all is_str ks \<Longrightarrow> sorted (map py_str (sorted_keys ks))"
  by (simp add: sorted_keys_def comp_def)

lemma int_key_not_str: "is_int_key k \<Longrightarrow> \<not> is_str k"
  by (cases k) simp_all

lemma sorted_keys_ints:
  assumes "list_all is_int_key ks" and "2 \<le> length ks"
  shows "sorted (map key_number (sorted_keys ks))"
proof -
  from assms(2) obtain k ks' where "ks = k # ks'"
    by (cases ks) auto
  with assms(1) have "\<not> list_all is_str ks"
    by (simp add: int_key_not_str)
  then show ?thesis
    by (simp add: sorted_keys_def)
qed

text \<open>
  C8, as stated, fails for keys that are not strings: the keys are sorted with
  \<open>keys.sort()\<close>, which puts the integer key 9 before 10, while in lexicographic order
  \<open>'10'\<close> comes before \<open>'9'\<close>. With the explicit keys 9 and 10 the element
  \<open>{10: 'b', 9: 'a'}\<close> is indexed by \<open>('a', 'b')\<close>.
\<close>

theorem sequence_to_dict_index_counterexample:
  "sequence_to_dict (VList [VDict [(VInt 10, VStr ''b''), (VInt 9, VStr ''a'')]])
     None True [VInt 9, VInt 10]
     = ([], Inr [(VTuple [VStr ''a'', VStr ''b''],
                  VDict [(VInt 10, VStr ''b''), (VInt 9, VStr ''a'')])])
   \<and> sort [str_int 9, str_int 10] = [str_int 10, str_int 9]"
  by code_simp

text \<open>
  C8 (amended). For a non-empty sequence whose items are not classes and whose identity
  keys have been identified (\<open>guess_keys\<close> returns the keys \<open>ks\<close>; two or more keys
  are all strings, as the names of fields are, or all integers), \<open>sequence_to_dict\<close>
  builds exactly the index the specification describes: the dict comprehension over the
  elements that stores each element under \<open>spec_index\<close>. With no key that index is the
  string of the element's position; with one key it is the value of that field; with
  two or more keys it is the tuple of the values of those fields, the keys taken in
  sorted order: lexicographic for string keys, numeric for integer keys. Looking up a
  key in the result gives the entry written last under an equal key.
\<close>

theorem sequence_to_dict_index:
  assumes it: "items_of seq = Inr items" and ne: "items \<noteq> []"
    and nt: "\<forall>x\<in>set items. type_of x \<noteq> T_type"
    and g: "guess_keys seq is_key ci keys = (w, Inr g)"
    and ks: "ks = keyset_list g"
    and kt: "2 \<le> length ks \<longrightarrow> list_all is_str ks \<or> list_all is_int_key ks"
  shows "sequence_to_dict seq is_key ci keys =
           (w, dict_comp (spec_entry ks) (enumerate 0 items) [])
       \<and> (ks = [] \<longrightarrow> (\<forall>i item. spec_index ks i item = Inr (VStr (str_int (int i)))))
       \<and> (\<forall>k. ks = [k] \<longrightarrow> (\<forall>i item. spec_index ks i item = field_value item k))
       \<and> (2 \<le> length ks \<longrightarrow>
            (\<forall>i item. spec_index ks i item =
                   and_then (map_err (field_value item) (sorted_keys ks))
                     (\<lambda>vs. Inr (VTuple vs)))
            \<and> set (sorted_keys ks) = set ks
            \<and> (list_all is_str ks \<longrightarrow> sorted (map py_str (sorted_keys ks)))
            \<and> (list_all is_int_key ks \<longrightarrow> sorted (map key_number (sorted_keys ks))))
       \<and> (\<forall>d k. snd (sequence_to_dict seq is_key ci keys) = Inr d \<and> hashable k \<longrightarrow>
            (\<exists>kvs. map_err (spec_entry ks) (enumerate 0 items) = Inr kvs
               \<and> dict_get d k =
                   (case last_write kvs k of Some v \<Rightarrow> Inr v | None \<Rightarrow> Inl KeyError)))"
proof -
  have a: "sequence_to_dict seq is_key ci keys =
             (w, dict_comp (spec_entry ks) (enumerate 0 items) [])"
    using it ne g ks kt by (rule sequence_to_dict_spec)
  have b: "ks = [] \<longrightarrow> (\<forall>i item. spec_index ks i item = Inr (VStr (str_int (int i))))"
    by (simp add: spec_index_def)
  have c: "\<forall>k. ks = [k] \<longrightarrow> (\<forall>i item. spec_index ks i item = field_value item k)"
    by (simp add: spec_index_def)
  have d: "spec_index ks i item =
             and_then (map_err (field_value item) (sorted_keys ks))
               (\<lambda>vs. Inr (VTuple vs))"
    if "2 \<le> length ks" for i item
    using that by (cases ks; cases "tl ks") (auto simp: spec_index_def)
  have d1: "set (sorted_keys ks) = set ks"
    by (rule sorted_keys_set)
  have d2: "list_all is_str ks \<longrightarrow> sorted (map py_str (sorted_keys ks))"
    by (simp add: sorted_keys_strs)
  have d3: "sorted (map key_number (sorted_keys ks))"
    if "2 \<le> length ks" and "list_all is_int_key ks"
    using that(2,1) by (rule sorted_keys_ints)
  have e: "\<exists>kvs. map_err (spec_entry ks) (enumerate 0 items) = Inr kvs
               \<and> dict_get d k =
                   (case last_write kvs k of Some v \<Rightarrow> Inr v | None \<Rightarrow> Inl KeyError)"
    if "snd (sequence_to_dict seq is_key ci keys) = Inr d \<and> hashable k" for d k
  proof -
    from that a have r: "dict_comp (spec_entry ks) (enumerate 0 items) [] = Inr d"
      and h: "hashable k"
      by simp_all
    have "list_all (\<lambda>(k, v). hashable k) []"
      by simp
    from dict_comp_get [OF r this h] show ?thesis
      unfolding dict_get_empty [OF h] .
  qed
  from a b c d d1 d2 d3 e show ?thesis by simp
qed

theorem sequence_to_dict_index_witness:
  "sequence_to_dict (VList [VInt 7, VInt 8]) None True []
     = ([], Inr [(VStr ''0'', VInt 7), (VStr ''1'', VInt 8)])
   \<and> sequence_to_dict
       (VList [VObj 1 ''P'' [(''id'', VInt 5), (''v'', VStr ''a'')],
               VObj 2 ''P'' [(''id'', VInt 3), (''v'', VStr ''b'')]])
       (Some key_denoted_by_id) True []
     = ([], Inr [(VInt 5, VDict [(VStr ''id'', VInt 5), (VStr ''v'', VStr ''a'')]),
                 (VInt 3, VDict [(VStr ''id'', VInt 3), (VStr ''v'', VStr ''b'')])])
   \<and> sequence_to_dict
       (VList [VDict [(VStr ''bid'', VInt 1), (VStr ''aid'', VInt 2)]])
       (Some key_denoted_by_id) True []
     = ([], Inr [(VTuple [VInt 2, VInt 1],
                  VDict [(VStr ''bid'', VInt 1), (VStr ''aid'', VInt 2)])])
   \<and> sequence_to_dict
       (VList [VObj 1 ''P'' [(''bid'', VInt 1), (''aid'', VInt 2)]])
       (Some key_denoted_by_id) True []
     = ([], Inr [(VTuple [VInt 2, VInt 1],
                  VDict [(VStr ''bid'', VInt 1), (VStr ''aid'', VInt 2)])])
   \<and> sequence_to_dict
       (VList [VDict [(VInt 10, VStr ''b''), (VInt 2, VStr ''a'')]]) None True
       [VInt 2, VInt 10]
     = ([], Inr [(VTuple [VStr ''a'', VStr ''b''],
                  VDict [(VInt 10, VStr ''b''), (VInt 2, VStr ''a'')])])"
proof -
  let ?i1 = "[VInt 7, VInt 8]"
  let ?i2 = "[VObj 1 ''P'' [(''id'', VInt 5), (''v'', VStr ''a'')],
              VObj 2 ''P'' [(''id'', VInt 3), (''v'', VStr ''b'')]]"
  let ?i3 = "[VDict [(VStr ''bid'', VInt 1), (VStr ''aid'', VInt 2)]]"
  let ?i4 = "[VObj 1 ''P'' [(''bid'', VInt 1), (''aid'', VInt 2)]]"
  let ?i5 = "[VDict [(VInt 10, VStr ''b''), (VInt 2, VStr ''a'')]]"
  let ?id = "Some key_denoted_by_id"
  have g1: "guess_keys (VList ?i1) None True [] = ([], Inr (KeySet []))"
    by code_simp
  have g2: "guess_keys (VList ?i2) ?id True [] = ([], Inr (KeySet [VStr ''id'']))"
    by code_simp
  have g3: "guess_keys (VList ?i3) ?id True []
              = ([], Inr (KeySet [VStr ''bid'', VStr ''aid'']))"
    by code_simp
  have g4: "guess_keys (VList ?i4) ?id True []
              = ([], Inr (KeySet [VStr ''bid'', VStr ''aid'']))"
    by code_simp
  have g5: "guess_keys (VList ?i5) None True [VInt 2, VInt 10]
              = ([], Inr (KeySet [VInt 10, VInt 2]))"
    by code_simp
  have a: "sequence_to_dict (VList ?i1) None True []
             = ([], dict_comp (spec_entry []) (enumerate 0 ?i1) [])"
    using sequence_to_dict_index [OF _ _ _ g1, of ?i1 "[]"] by simp
  have b: "sequence_to_dict (VList ?i2) ?id True []
             = ([], dict_comp (spec_entry [VStr ''id'']) (enumerate 0 ?i2) [])"
    using sequence_to_dict_index [OF _ _ _ g2, of ?i2 "[VStr ''id'']"] by simp
  have c: "sequence_to_dict (VList ?i3) ?id True []
             = ([], dict_comp (spec_entry [VStr ''bid'', VStr ''aid'']) (enumerate 0 ?i3) [])"
    using sequence_to_dict_index [OF _ _ _ g3, of ?i3 "[VStr ''bid'', VStr ''aid'']"]
    by simp
  have d: "sequence_to_dict (VList ?i4) ?id True []
             = ([], dict_comp (spec_entry [VStr ''bid'', VStr ''aid'']) (enumerate 0 ?i4) [])"
    using sequence_to_dict_index [OF _ _ _ g4, of ?i4 "[VStr ''bid'', VStr ''aid'']"]
    by simp
  have e: "sequence_to_dict (VList ?i5) None True [VInt 2, VInt 10]
             = ([], dict_comp (spec_entry [VInt 10, VInt 2]) (enumerate 0 ?i5) [])"
    using sequence_to_dict_index [OF _ _ _ g5, of ?i5 "[VInt 10, VInt 2]"] by simp
  have a': "dict_comp (spec_entry []) (enumerate 0 ?i1) []
              = Inr [(VStr ''0'', VInt 7), (VStr ''1'', VInt 8)]"
    by code_simp
  have b': "dict_comp (spec_entry [VStr ''id'']) (enumerate 0 ?i2) []
              = Inr [(VInt 5, VDict [(VStr ''id'', VInt 5), (VStr ''v'', VStr ''a'')]),
                     (VInt 3, VDict [(VStr ''id'', VInt 3), (VStr ''v'', VStr ''b'')])]"
    by code_simp
  have c': "dict_comp (spec_entry [VStr ''bid'', VStr ''aid'']) (enumerate 0 ?i3) []
              = Inr [(VTuple [VInt 2, VInt 1],
                      VDict [(VStr ''bid'', VInt 1), (VStr ''aid'', VInt 2)])]"
    by code_simp
  have d': "dict_comp (spec_entry [VStr ''bid'', VStr ''aid'']) (enumerate 0 ?i4) []
              = Inr [(VTuple [VInt 2, VInt 1],
                      VDict [(VStr ''bid'', VInt 1), (VStr ''aid'', VInt 2)])]"
    by code_simp
  have e': "dict_comp (spec_entry [VInt 10, VInt 2]) (enumerate 0 ?i5) []
              = Inr [(VTuple [VStr ''a'', VStr ''b''],
                      VDict [(VInt 10, VStr ''b''), (VInt 2, VStr ''a'')])]"
    by code_simp
  from a b c d e a' b' c' d' e' show ?thesis by simp
qed


subsection \<open>Duplicate index values\<close>

text \<open>
  C9, as stated, asks for a warning to be logged when two elements compute the same
  index. Two dicts with the same \<open>id\<close> are converted without any message: the log
  returned is empty, and only the later element is kept.
\<close>

theorem duplicate_index_warning_counterexample:
  "sequence_to_dict
     (VList [VDict [(VStr ''id'', VInt 1), (VStr ''v'', VStr ''a'')],
             VDict [(VStr ''id'', VInt 1), (VStr ''v'', VStr ''b'')]])
     (Some key_denoted_by_id) True []
   = ([], Inr [(VInt 1, VDict [(VStr ''id'', VInt 1), (VStr ''v'', VStr ''b'')])])"
  by code_simp

text \<open>
  C9, amended. When two elements of a sequence compute equal index values, the later
  element overwrites the earlier one (last write wins): the entry found under either
  index is the later element, provided no element after it has an equal index. The
  conversion logs nothing about the duplicate; the only messages it returns are those of
  the key guessing.
\<close>

theorem duplicate_index_last_wins:
  assumes it: "items_of seq = Inr items" and ne: "items \<noteq> []"
    and g: "guess_keys seq is_key ci keys = (w, Inr g)"
    and ks: "ks = keyset_list g"
    and strs: "2 \<le> length ks \<longrightarrow> (\<forall>k\<in>set ks. is_str k)"
    and res: "sequence_to_dict seq is_key ci keys = (w', Inr d)"
    and ij: "i < j" "j < length items"
    and ei: "spec_entry ks (i, items ! i) = Inr (ki, vi)"
    and ej: "spec_entry ks (j, items ! j) = Inr (kj, vj)"
    and eq: "py_eq ki kj"
    and last: "\<forall>m km vm. j < m \<and> m < length items
                 \<and> spec_entry ks (m, items ! m) = Inr (km, vm) \<longrightarrow> \<not> py_eq km kj"
  shows "dict_get d ki = Inr vj \<and> dict_get d kj = Inr vj
       \<and> w' = w \<and> w' = fst (guess_keys seq is_key ci keys)"
proof -
  have kt: "2 \<le> length ks \<longrightarrow> list_all is_str ks \<or> list_all is_int_key ks"
    using strs by (simp add: list_all_iff)
  have spec: "sequence_to_dict seq is_key ci keys =
                (w, dict_comp (spec_entry ks) (enumerate 0 items) [])"
    using it ne g ks kt by (rule sequence_to_dict_spec)
  with res have w: "w' = w"
    and r: "dict_comp (spec_entry ks) (enumerate 0 items) [] = Inr d"
    by simp_all
  have nth: "enumerate 0 items ! m = (m, items ! m)" if "m < length items" for m
    using that by (simp add: nth_enumerate_eq)
  have mem: "(m, items ! m) \<in> set (enumerate 0 items)" if "m < length items" for m
    using that nth [OF that] by (metis length_enumerate nth_mem)
  have hj: "hashable kj"
    using r mem [OF ij(2)] ej by (rule dict_comp_hashable)
  have il: "i < length items"
    using ij by simp
  have hi: "hashable ki"
    using r mem [OF il] ei by (rule dict_comp_hashable)
  have nil: "list_all (\<lambda>(k, v). hashable k) []"
    by simp
  from dict_comp_get [OF r nil hj] obtain kvs
    where kvs: "map_err (spec_entry ks) (enumerate 0 items) = Inr kvs"
    by blast
  from map_err_nth [OF kvs]
  have len: "length kvs = length items"
    and pt: "\<forall>m<length items. spec_entry ks (m, items ! m) = Inr (kvs ! m)"
    using nth by auto
  have kj: "kvs ! j = (kj, vj)" and ki: "kvs ! i = (ki, vi)"
    using pt ij ei ej by auto
  have eq': "same_or_eq ki kj"
    using eq by (rule py_eq_same_or_eq)
  have later: "\<not> same_or_eq (fst (kvs ! m)) kj" if "j < m \<and> m < length kvs" for m
  proof -
    from that len have m: "j < m \<and> m < length items" by simp
    then have "spec_entry ks (m, items ! m) = Inr (fst (kvs ! m), snd (kvs ! m))"
      using pt by simp
    with m last have "\<not> py_eq (fst (kvs ! m)) kj" by blast
    then show ?thesis by (simp add: same_or_eq_py_eq [OF eq])
  qed
  have lw: "last_write kvs kj = Some vj"
    using last_write_nth [of j kvs kj] ij len kj later by (simp add: same_or_eq_refl)
  have a: "dict_get d kj = Inr vj"
    using dict_comp_get [OF r nil hj] kvs lw by auto
  have later_i: "\<not> same_or_eq (fst (kvs ! m)) ki" if "j < m \<and> m < length kvs" for m
  proof
    assume p: "same_or_eq (fst (kvs ! m)) ki"
    from that len have m: "m < length items" by simp
    then have "spec_entry ks (m, items ! m) = Inr (fst (kvs ! m), snd (kvs ! m))"
      using pt by simp
    with r mem [OF m] have "hashable (fst (kvs ! m))"
      by (rule dict_comp_hashable)
    then have "same_or_eq (fst (kvs ! m)) kj"
      using same_or_eq_trans [of "fst (kvs ! m)" ki kj] p eq' hi hj by blast
    with later [OF that] show False by simp
  qed
  have "same_or_eq kj ki"
    using same_or_eq_sym [of ki kj] eq' hi hj by blast
  then have lwi: "last_write kvs ki = Some vj"
    using last_write_nth [of j kvs ki] ij len kj later_i by simp
  have b: "dict_get d ki = Inr vj"
    using dict_comp_get [OF r nil hi] kvs lwi by auto
  have c: "w' = fst (guess_keys seq is_key ci keys)"
    using res sequence_to_dict_log [of seq is_key ci keys] by simp
  from a b w c show ?thesis by simp
qed

theorem duplicate_index_last_wins_witness:
  "sequence_to_dict
     (VList [VDict [(VStr ''id'', VInt 1), (VStr ''v'', VStr ''a'')],
             VDict [(VStr ''id'', VInt 1), (VStr ''v'', VStr ''b'')]])
     (Some key_denoted_by_id) True []
     = ([], Inr [(VInt 1, VDict [(VStr ''id'', VInt 1), (VStr ''v'', VStr ''b'')])])
   \<and> py_eq (VInt 1) (VInt 1)
   \<and> dict_get [(VInt 1, VDict [(VStr ''id'', VInt 1), (VStr ''v'', VStr ''b'')])] (VInt 1)
       = Inr (VDict [(VStr ''id'', VInt 1), (VStr ''v'', VStr ''b'')])
   \<and> fst (guess_keys
       (VList [VDict [(VStr ''id'', VInt 1), (VStr ''v'', VStr ''a'')],
               VDict [(VStr ''id'', VInt 1), (VStr ''v'', VStr ''b'')]])
       (Some key_denoted_by_id) True []) = []"
proof -
  let ?a = "VDict [(VStr ''id'', VInt 1), (VStr ''v'', VStr ''a'')]"
  let ?b = "VDict [(VStr ''id'', VInt 1), (VStr ''v'', VStr ''b'')]"
  let ?s = "VList [?a, ?b]"
  have it: "items_of ?s = Inr [?a, ?b]"
    by code_simp
  have ne: "[?a, ?b] \<noteq> []"
    by simp
  have g: "guess_keys ?s (Some key_denoted_by_id) True [] = ([], Inr (KeySet [VStr ''id'']))"
    by code_simp
  have ks: "[VStr ''id''] = keyset_list (KeySet [VStr ''id''])"
    by simp
  have strs: "2 \<le> length [VStr ''id''] \<longrightarrow> (\<forall>k\<in>set [VStr ''id'']. is_str k)"
    by simp
  have res: "sequence_to_dict ?s (Some key_denoted_by_id) True [] = ([], Inr [(VInt 1, ?b)])"
    by code_simp
  have ij: "(0::nat) < 1" "1 < length [?a, ?b]"
    by simp_all
  have ei: "spec_entry [VStr ''id''] (0, [?a, ?b] ! 0) = Inr (VInt 1, ?a)"
    by code_simp
  have ej: "spec_entry [VStr ''id''] (1, [?a, ?b] ! 1) = Inr (VInt 1, ?b)"
    by code_simp
  have eq: "py_eq (VInt 1) (VInt 1)"
    by simp
  have last: "\<forall>m km vm. 1 < m \<and> m < length [?a, ?b]
                 \<and> spec_entry [VStr ''id''] (m, [?a, ?b] ! m) = Inr (km, vm)
                 \<longrightarrow> \<not> py_eq km (VInt 1)"
  proof (intro allI impI)
    fix m :: nat and km vm
    assume "1 < m \<and> m < length [?a, ?b]
              \<and> spec_entry [VStr ''id''] (m, [?a, ?b] ! m) = Inr (km, vm)"
    then have "1 < m \<and> m < 2"
      by simp
    then show "\<not> py_eq km (VInt 1)"
      by arith
  qed
  from duplicate_index_last_wins [OF it ne g ks strs res ij ei ej eq last] res eq
  show ?thesis by simp
qed


subsection \<open>Missing keys\<close>
























end
